theory Spec2Isabelle
  imports Main "HOL-Library.Sublist"
begin

section \<open>JavaScript strings\<close>

text \<open>
  A JavaScript string is a sequence of UTF-16 code units. The sources use one character
  outside ASCII, the rupee sign U+20B9, in patterns and in the fallback records, and they
  compare \<open>length\<close> against thresholds, so a string is modelled as the list of its code
  units. \<open>js\<close> reads an ASCII literal.
\<close>

type_synonym jsstring = "nat list"

definition js :: "string \<Rightarrow> jsstring" where
  "js cs = map of_char cs"

definition rupee :: nat where
  "rupee = 8377"

text \<open>
  White space and line terminators of the language: the characters \<open>\s\<close> matches and
  \<open>trim\<close> removes.
\<close>

definition is_space :: "nat \<Rightarrow> bool" where
  "is_space c = (c = 32 \<or> (9 \<le> c \<and> c \<le> 13) \<or> c = 160 \<or> c = 5760 \<or> (8192 \<le> c \<and> c \<le> 8202)
     \<or> c = 8232 \<or> c = 8233 \<or> c = 8239 \<or> c = 8287 \<or> c = 12288 \<or> c = 65279)"

definition is_line_end :: "nat \<Rightarrow> bool" where
  "is_line_end c = (c = 10 \<or> c = 13 \<or> c = 8232 \<or> c = 8233)"

definition is_digit :: "nat \<Rightarrow> bool" where
  "is_digit c = (48 \<le> c \<and> c \<le> 57)"

definition is_word :: "nat \<Rightarrow> bool" where
  "is_word c = ((97 \<le> c \<and> c \<le> 122) \<or> (65 \<le> c \<and> c \<le> 90) \<or> is_digit c \<or> c = 95)"

text \<open>
  Case mapping. \<open>toLowerCase\<close> maps the whole of Unicode, the model the ASCII letters.
  The two agree on every test of the sources: the words searched for are ASCII, and the only
  code units outside ASCII whose lower case holds an ASCII letter are the Kelvin sign
  (\<open>k\<close>) and the dotted capital I (\<open>i\<close> followed by a combining dot), while no word
  searched for contains \<open>k\<close> or ends in \<open>i\<close>. Under the ignore-case flag a pattern
  character that is an ASCII letter matches the two ASCII letters only.
\<close>

definition lower :: "nat \<Rightarrow> nat" where
  "lower c = (if 65 \<le> c \<and> c \<le> 90 then c + 32 else c)"

definition upper :: "nat \<Rightarrow> nat" where
  "upper c = (if 97 \<le> c \<and> c \<le> 122 then c - 32 else c)"

definition toLowerCase :: "jsstring \<Rightarrow> jsstring" where
  "toLowerCase s = map lower s"

definition trim :: "jsstring \<Rightarrow> jsstring" where
  "trim s = rev (dropWhile is_space (rev (dropWhile is_space s)))"

fun includes_str :: "jsstring \<Rightarrow> jsstring \<Rightarrow> bool" where
  "includes_str [] t = (t = [])"
| "includes_str (x # xs) t = (prefix t (x # xs) \<or> includes_str xs t)"

definition startsWith :: "jsstring \<Rightarrow> jsstring \<Rightarrow> bool" where
  "startsWith s t = prefix t s"

definition slice :: "nat \<Rightarrow> nat \<Rightarrow> jsstring \<Rightarrow> jsstring" where
  "slice a b s = take (b - a) (drop a s)"

fun join :: "jsstring \<Rightarrow> jsstring list \<Rightarrow> jsstring" where
  "join sep [] = []"
| "join sep [x] = x"
| "join sep (x # y # ys) = x @ sep @ join sep (y # ys)"

section \<open>Regular expressions\<close>

text \<open>
  The patterns of the sources, as syntax trees, and the backtracking matcher of the
  language over them: alternatives are tried left to right, quantifiers are greedy, an
  iteration of a quantifier past its minimum that matches the empty string is rejected,
  a lookahead consumes nothing. Each pattern has at most one capturing group, outside
  every quantifier.
\<close>

datatype item = Ch nat | Rng nat nat | Space | Digit

datatype rx =
    Eps
  | Cls bool "item list"
  | Seq rx rx
  | Alt rx rx
  | Star rx
  | Rep nat nat rx
  | Grp rx
  | Look rx
  | Bol
  | WordB

fun in_item :: "item \<Rightarrow> nat \<Rightarrow> bool" where
  "in_item (Ch a) c = (c = a)"
| "in_item (Rng a b) c = (a \<le> c \<and> c \<le> b)"
| "in_item Space c = is_space c"
| "in_item Digit c = is_digit c"

fun in_items :: "item list \<Rightarrow> nat \<Rightarrow> bool" where
  "in_items [] c = False"
| "in_items (it # its) c = (in_item it c \<or> in_items its c)"

text \<open>
  \<open>in_cls ic neg its c\<close>: does the code unit \<open>c\<close> match the class with members \<open>its\<close>,
  negated when \<open>neg\<close>, under the ignore-case flag \<open>ic\<close>? With the flag, a class matches
  when some member has the same canonical form as \<open>c\<close>.
\<close>

definition in_cls :: "bool \<Rightarrow> bool \<Rightarrow> item list \<Rightarrow> nat \<Rightarrow> bool" where
  "in_cls ic neg its c =
     (let hit = (in_items its c \<or> (ic \<and> (in_items its (upper c) \<or> in_items its (lower c))))
      in (if neg then \<not> hit else hit))"

datatype frame = R rx | Chk nat | GEnd nat

fun sz :: "rx \<Rightarrow> nat" where
  "sz Eps = 1"
| "sz (Cls n its) = 1"
| "sz (Seq a b) = 1 + sz a + sz b"
| "sz (Alt a b) = 1 + sz a + sz b"
| "sz (Star r) = 1 + sz r"
| "sz (Rep n m r) = 1 + (m + 1) * (sz r + 1)"
| "sz (Grp r) = 2 + sz r"
| "sz (Look r) = 1 + sz r"
| "sz Bol = 1"
| "sz WordB = 1"

fun wt :: "nat \<Rightarrow> frame list \<Rightarrow> nat" where
  "wt i [] = 0"
| "wt i (R r # k) = sz r + wt i k"
| "wt i (GEnd j # k) = 1 + wt i k"
| "wt i (Chk j # k) = (if i \<le> j then 0 else 1 + wt i k)"

definition at_bol :: "bool \<Rightarrow> nat option \<Rightarrow> bool" where
  "at_bol ml p = (case p of None \<Rightarrow> True | Some c \<Rightarrow> ml \<and> is_line_end c)"

definition at_wordb :: "nat option \<Rightarrow> jsstring \<Rightarrow> bool" where
  "at_wordb p s =
     ((case p of None \<Rightarrow> False | Some c \<Rightarrow> is_word c) \<noteq> (case s of [] \<Rightarrow> False | c # cs \<Rightarrow> is_word c))"

text \<open>
  \<open>run ic ml k i p s c\<close> runs the stack of frames \<open>k\<close> at index \<open>i\<close>, where \<open>p\<close> is the
  code unit before \<open>i\<close> (if any), \<open>s\<close> the rest of the input from \<open>i\<close> and \<open>c\<close> the capture
  so far. It returns the end index and the capture of the first match in backtracking
  order. \<open>Chk j\<close> is the progress check of a quantifier entered at \<open>j\<close>; \<open>GEnd j\<close> closes the
  group opened at \<open>j\<close>. \<open>retry m ic ml k i p s c\<close> is backtracking: when the attempt \<open>m\<close>
  failed, the saved stack \<open>k\<close> runs at the saved position. \<open>proceed\<close> continues after a
  lookahead that succeeded, at the position where the lookahead started.
\<close>

function (sequential) run ::
  "bool \<Rightarrow> bool \<Rightarrow> frame list \<Rightarrow> nat \<Rightarrow> nat option \<Rightarrow> jsstring \<Rightarrow> (nat \<times> nat) option
     \<Rightarrow> (nat \<times> (nat \<times> nat) option) option"
and retry ::
  "(nat \<times> (nat \<times> nat) option) option \<Rightarrow> bool \<Rightarrow> bool \<Rightarrow> frame list \<Rightarrow> nat \<Rightarrow> nat option
     \<Rightarrow> jsstring \<Rightarrow> (nat \<times> nat) option \<Rightarrow> (nat \<times> (nat \<times> nat) option) option"
and proceed ::
  "(nat \<times> (nat \<times> nat) option) option \<Rightarrow> bool \<Rightarrow> bool \<Rightarrow> frame list \<Rightarrow> nat \<Rightarrow> nat option
     \<Rightarrow> jsstring \<Rightarrow> (nat \<times> nat) option \<Rightarrow> (nat \<times> (nat \<times> nat) option) option" where
  "run ic ml [] i p s c = Some (i, c)"
| "run ic ml (Chk j # k) i p s c = (if j < i then run ic ml k i p s c else None)"
| "run ic ml (GEnd j # k) i p s c = run ic ml k i p s (Some (j, i))"
| "run ic ml (R Eps # k) i p s c = run ic ml k i p s c"
| "run ic ml (R (Cls n its) # k) i p [] c = None"
| "run ic ml (R (Cls n its) # k) i p (x # xs) c =
     (if in_cls ic n its x then run ic ml k (i + 1) (Some x) xs c else None)"
| "run ic ml (R (Seq a b) # k) i p s c = run ic ml (R a # R b # k) i p s c"
| "run ic ml (R (Alt a b) # k) i p s c =
     retry (run ic ml (R a # k) i p s c) ic ml (R b # k) i p s c"
| "run ic ml (R (Star r) # k) i p s c =
     retry (run ic ml (R r # Chk i # R (Star r) # k) i p s c) ic ml k i p s c"
| "run ic ml (R (Rep n m r) # k) i p s c =
     (if m = 0 then run ic ml k i p s c
      else if 0 < n then run ic ml (R r # R (Rep (n - 1) (m - 1) r) # k) i p s c
      else retry (run ic ml (R r # Chk i # R (Rep 0 (m - 1) r) # k) i p s c) ic ml k i p s c)"
| "run ic ml (R (Grp r) # k) i p s c = run ic ml (R r # GEnd i # k) i p s c"
| "run ic ml (R (Look r) # k) i p s c =
     proceed (run ic ml [R r] i p s c) ic ml k i p s c"
| "run ic ml (R Bol # k) i p s c = (if at_bol ml p then run ic ml k i p s c else None)"
| "run ic ml (R WordB # k) i p s c = (if at_wordb p s then run ic ml k i p s c else None)"
| "retry (Some m) ic ml k i p s c = Some m"
| "retry None ic ml k i p s c = run ic ml k i p s c"
| "proceed None ic ml k i p s c = None"
| "proceed (Some m) ic ml k i p s c = run ic ml k i p s c"
  by pat_completeness auto
termination
  by (relation "inv_image (less_than <*lex*> less_than <*lex*> less_than)
        (\<lambda>x. case x of
           Inl (ic, ml, k, i, p, s, c) \<Rightarrow> (length s, 2 * wt i k, 0::nat)
         | Inr (Inl (m, ic, ml, k, i, p, s, c)) \<Rightarrow> (length s, 2 * wt i k, 1)
         | Inr (Inr (m, ic, ml, k, i, p, s, c)) \<Rightarrow> (length s, 2 * wt i k, 1))")
     (auto simp: algebra_simps)

lemma run_bounds:
  "run ic ml k i p s c = Some (e, c') \<Longrightarrow> i \<le> e \<and> e \<le> i + length s"
  "retry m ic ml k i p s c = Some (e, c') \<Longrightarrow>
     (m = Some (e, c') \<or> m = None) \<and> (m = None \<longrightarrow> i \<le> e \<and> e \<le> i + length s)"
  "proceed m ic ml k i p s c = Some (e, c') \<Longrightarrow> i \<le> e \<and> e \<le> i + length s"
proof (induction ic ml k i p s c and m ic ml k i p s c and m ic ml k i p s c
    arbitrary: e c' and e c' and e c' rule: run_retry_proceed.induct)
  case (6 ic ml n its k i p x xs c)
  then show ?case by (fastforce split: if_splits)
next
  case (8 ic ml a b k i p s c)
  then show ?case by fastforce
next
  case (9 ic ml r k i p s c)
  then show ?case by fastforce
next
  case (10 ic ml n m r k i p s c)
  then show ?case by (fastforce split: if_splits)
qed (fastforce split: if_splits)+

text \<open>
  A regular expression object: the pattern with its ignore-case and multiline flags.
  \<open>scan\<close> is the search of an unanchored match: the start index moves right until the
  pattern matches; it returns the start, the end and the capture.
\<close>

datatype regexp = RegExp rx bool bool

fun scan ::
  "bool \<Rightarrow> bool \<Rightarrow> rx \<Rightarrow> nat \<Rightarrow> nat option \<Rightarrow> jsstring
     \<Rightarrow> (nat \<times> nat \<times> (nat \<times> nat) option) option"
and scan_next ::
  "(nat \<times> (nat \<times> nat) option) option \<Rightarrow> bool \<Rightarrow> bool \<Rightarrow> rx \<Rightarrow> nat \<Rightarrow> nat option \<Rightarrow> jsstring
     \<Rightarrow> (nat \<times> nat \<times> (nat \<times> nat) option) option" where
  "scan ic ml r i p s = scan_next (run ic ml [R r] i p s None) ic ml r i p s"
| "scan_next (Some (e, c)) ic ml r i p s = Some (i, e, c)"
| "scan_next None ic ml r i p [] = None"
| "scan_next None ic ml r i p (x # xs) = scan ic ml r (i + 1) (Some x) xs"

text \<open>
  \<open>str_match t re\<close> is \<open>t.match(re)\<close> for a pattern without the global flag: \<open>None\<close> for
  \<open>null\<close>, else the matched text \<open>match[0]\<close> and the captured text \<open>match[1]\<close> (\<open>None\<close>
  when the pattern has no group).
\<close>

fun str_match :: "jsstring \<Rightarrow> regexp \<Rightarrow> (jsstring \<times> jsstring option) option" where
  "str_match t (RegExp r ic ml) =
     (case scan ic ml r 0 None t of
        None \<Rightarrow> None
      | Some (a, e, c) \<Rightarrow> Some (slice a e t, map_option (\<lambda>(x, y). slice x y t) c))"

text \<open>\<open>t.replace(re, '')\<close> for a pattern without the global flag: the first match is removed.\<close>

fun str_remove :: "jsstring \<Rightarrow> regexp \<Rightarrow> jsstring" where
  "str_remove t (RegExp r ic ml) =
     (case scan ic ml r 0 None t of
        None \<Rightarrow> t
      | Some (a, e, c) \<Rightarrow> take a t @ drop e t)"

text \<open>
  \<open>t.split(re)\<close>, the loop of the language definition: \<open>p\<close> is the start of the current
  piece, \<open>q\<close> the index where a match is tried next (anchored at \<open>q\<close>), \<open>s\<close> the input from
  \<open>q\<close> on. A match that ends at \<open>p\<close> is skipped; any other match closes the piece at \<open>q\<close>
  and the next piece starts at the end of the match (which never lies behind the end of the
  text, so the minimum the language definition takes there is the end itself).
\<close>

function split_loop ::
  "bool \<Rightarrow> bool \<Rightarrow> rx \<Rightarrow> jsstring \<Rightarrow> nat \<Rightarrow> nat \<Rightarrow> nat option \<Rightarrow> jsstring \<Rightarrow> jsstring list" where
  "split_loop ic ml r t p q pv [] = [drop p t]"
| "split_loop ic ml r t p q pv (x # xs) =
     (case run ic ml [R r] q pv (x # xs) None of
        None \<Rightarrow> split_loop ic ml r t p (q + 1) (Some x) xs
      | Some (e, c) \<Rightarrow>
          if e = p then split_loop ic ml r t p (q + 1) (Some x) xs
          else slice p q t #
               split_loop ic ml r t e e
                 (if e = q then pv else Some ((x # xs) ! (e - q - 1))) (drop (e - q) (x # xs)))"
  by pat_completeness auto
termination
proof (relation "inv_image (less_than <*lex*> less_than)
        (\<lambda>(ic, ml, r, t, p, q, pv, s). (length s, if p = q then 0 else (1::nat)))", goal_cases)
  case 1
  show ?case by auto
next
  case (2 ic ml r t p q pv x xs)
  show ?case by auto
next
  case (3 ic ml r t p q pv x xs a e c)
  show ?case by auto
next
  case (4 ic ml r t p q pv x xs a e c)
  from 4(1,2) have "q \<le> e" using run_bounds(1) by blast
  with 4(3) show ?case by (cases "e = q") auto
qed

fun str_split :: "jsstring \<Rightarrow> regexp \<Rightarrow> jsstring list" where
  "str_split t (RegExp r ic ml) =
     (if t = [] then (case run ic ml [R r] 0 None [] None of None \<Rightarrow> [[]] | Some m \<Rightarrow> [])
      else split_loop ic ml r t 0 0 None t)"

subsection \<open>Writing patterns\<close>

definition ch :: "char \<Rightarrow> item" where
  "ch x = Ch (of_char x)"

definition rng :: "char \<Rightarrow> char \<Rightarrow> item" where
  "rng x y = Rng (of_char x) (of_char y)"

definition one :: "char \<Rightarrow> rx" where
  "one x = Cls False [ch x]"

definition lit :: "string \<Rightarrow> rx" where
  "lit cs = foldr (\<lambda>x r. Seq (one x) r) cs Eps"

definition plus :: "rx \<Rightarrow> rx" where
  "plus r = Seq r (Star r)"

definition opt :: "rx \<Rightarrow> rx" where
  "opt r = Rep 0 1 r"

fun seqs :: "rx list \<Rightarrow> rx" where
  "seqs [] = Eps"
| "seqs [r] = r"
| "seqs (r # rs) = Seq r (seqs rs)"

fun alts :: "rx list \<Rightarrow> rx" where
  "alts [] = Cls False []"
| "alts [r] = r"
| "alts (r # rs) = Alt r (alts rs)"

definition nl :: item where
  "nl = Ch 10"

definition dot :: rx where
  "dot = Cls True [Ch 10, Ch 13, Ch 8232, Ch 8233]"

definition digit :: rx where
  "digit = Cls False [Digit]"

definition space :: rx where
  "space = Cls False [Space]"

definition upper_AZ :: rx where
  "upper_AZ = Cls False [rng CHR ''A'' CHR ''Z'']"

text \<open>\<open>[^.\n]\<close>, the characters of a name or a phrase on one line of one sentence.\<close>

definition not_stop :: rx where
  "not_stop = Cls True [ch CHR ''.'', nl]"

text \<open>\<open>[Ss]cholarship\<close> and its like: either case of the first letter, then the rest.\<close>

definition word2 :: "char \<Rightarrow> char \<Rightarrow> string \<Rightarrow> rx" where
  "word2 x y cs = Seq (Cls False [ch x, ch y]) (lit cs)"


definition amount_chars :: rx where
  "amount_chars = Cls False [Digit, ch CHR '','', ch CHR ''.'', Space]"

definition name_chars :: rx where
  "name_chars = Cls False [rng CHR ''A'' CHR ''Z'', rng CHR ''a'' CHR ''z'', Space, ch CHR ''&'', ch CHR ''-'']"

definition colon_space :: rx where
  "colon_space = Cls False [ch CHR '':'', Space]"

definition months :: rx where
  "months = alts [lit ''January'', lit ''February'', lit ''March'', lit ''April'', lit ''May'',
     lit ''June'', lit ''July'', lit ''August'', lit ''September'', lit ''October'',
     lit ''November'', lit ''December'']"

text \<open>\<open>(https?:\/\/[^\s)]+)\<close>, the absolute link of both variants.\<close>

definition http_link :: regexp where
  "http_link = RegExp
     (Grp (seqs [lit ''http'', opt (one CHR ''s''), lit ''://'',
        plus (Cls True [Space, ch CHR '')''])])) False False"

section \<open>The record and the input\<close>

record scholarship =
  name :: jsstring
  amount :: jsstring
  eligibility :: jsstring
  deadline :: jsstring
  description :: jsstring
  link :: jsstring

text \<open>
  The callers pass whatever the completion service put in the \<open>content\<close> field of its
  JSON answer, after checking only that it is truthy. \<open>JString\<close> is a string; \<open>JOther\<close>
  stands for any other truthy JSON value (a number, \<open>true\<close>, an array, an object), none of
  which has a callable \<open>split\<close>, so that calling it throws a \<open>TypeError\<close>.
\<close>

datatype js_value = JString jsstring | JOther

datatype error = TypeError

definition portal :: jsstring where
  "portal = js ''https://scholarships.gov.in''"

section \<open>The simpler variant (src/unnamed/part_000)\<close>

text \<open>
  Both variants define \<open>extractAmount\<close>, \<open>extractEligibility\<close>, \<open>extractDeadline\<close>,
  \<open>extractDescription\<close> and \<open>extractLink\<close>; the functions of this variant carry the suffix
  \<open>_p0\<close>. \<open>first_match\<close> is the loop \<open>for (const pattern of patterns)\<close> that returns at the
  first pattern that matches.
\<close>

fun first_match :: "jsstring \<Rightarrow> regexp list \<Rightarrow> (jsstring \<times> jsstring option) option" where
  "first_match t [] = None"
| "first_match t (re # res) =
     (case str_match t re of
        Some m \<Rightarrow> Some m
      | None \<Rightarrow> first_match t res)"

text \<open>\<open>match[1] || match[0]\<close>: the capture unless it is absent or empty.\<close>

fun group_or_whole :: "jsstring \<times> jsstring option \<Rightarrow> jsstring" where
  "group_or_whole (w, None) = w"
| "group_or_whole (w, Some g) = (if g = [] then w else g)"

text \<open>\<open>match[1]\<close> of a pattern whose group takes part in every match.\<close>

fun group1 :: "jsstring \<times> jsstring option \<Rightarrow> jsstring" where
  "group1 (w, None) = []"
| "group1 (w, Some g) = g"

definition name_patterns_p0 :: "regexp list" where
  "name_patterns_p0 =
     [RegExp (Grp (seqs [upper_AZ, plus name_chars,
        alts [lit ''Scholarship'', lit ''Grant'', lit ''Fellowship'', lit ''Award'',
              lit ''Scheme'', lit ''Yojana'']])) False False,
      RegExp (Seq Bol (Grp (seqs [upper_AZ, plus not_stop,
        alts [lit ''Scholarship'', lit ''Grant'', lit ''Fellowship'', lit ''Award'']]))) False True]"

definition extractName :: "jsstring \<Rightarrow> jsstring" where
  "extractName t =
     (case first_match t name_patterns_p0 of
        Some m \<Rightarrow> trim (group1 m)
      | None \<Rightarrow> js ''Educational Grant'')"

definition amount_patterns_p0 :: "regexp list" where
  "amount_patterns_p0 =
     [RegExp (seqs [Cls False [Ch rupee], plus amount_chars,
        opt (Seq (Star space) (alts [lit ''lakh'', lit ''crore'', lit ''per year'', lit ''annually'']))])
        True False,
      RegExp (seqs [lit ''Rs'', opt (one CHR ''.''), Star space, plus amount_chars]) True False,
      RegExp (seqs [lit ''up to'', Star space, opt (Cls False [Ch rupee]), plus amount_chars])
        True False]"

definition extractAmount_p0 :: "jsstring \<Rightarrow> jsstring" where
  "extractAmount_p0 t =
     (case first_match t amount_patterns_p0 of
        Some m \<Rightarrow> trim (fst m)
      | None \<Rightarrow> js ''Amount varies'')"

definition eligibility_patterns_p0 :: "regexp list" where
  "eligibility_patterns_p0 =
     [RegExp (seqs [lit ''eligibility'', Star colon_space, Grp (Rep 20 100 not_stop)]) True False,
      RegExp (seqs [lit ''eligible'', Star colon_space, Grp (Rep 20 100 not_stop)]) True False,
      RegExp (seqs [lit ''for'', plus space, Grp (Seq (Rep 20 100 not_stop) (lit ''students''))])
        True False]"

definition extractEligibility_p0 :: "jsstring \<Rightarrow> jsstring" where
  "extractEligibility_p0 t =
     (case first_match t eligibility_patterns_p0 of
        Some m \<Rightarrow> trim (group1 m)
      | None \<Rightarrow> js ''Check official website'')"

definition deadline_patterns_p0 :: "regexp list" where
  "deadline_patterns_p0 =
     [RegExp (seqs [lit ''deadline'', Star colon_space, Grp (Rep 10 50 not_stop)]) True False,
      RegExp (seqs [lit ''apply by'', Star colon_space, Grp (Rep 10 50 not_stop)]) True False,
      RegExp (seqs [months, plus space, Rep 4 4 digit]) True False]"

definition extractDeadline_p0 :: "jsstring \<Rightarrow> jsstring" where
  "extractDeadline_p0 t =
     (case first_match t deadline_patterns_p0 of
        Some m \<Rightarrow> group_or_whole m
      | None \<Rightarrow> js ''Check website'')"

definition extractDescription_p0 :: "jsstring \<Rightarrow> jsstring" where
  "extractDescription_p0 t =
     (let sentences = str_split t
            (RegExp (Cls False [ch CHR ''.'', ch CHR ''!'', ch CHR ''?'']) False False);
          good = take 1 (filter (\<lambda>s. 30 < length s \<and> length s < 150) sentences)
      in (case good of
            g # gs \<Rightarrow> trim g @ js ''.''
          | [] \<Rightarrow> js ''Scholarship opportunity available.''))"

definition extractLink_p0 :: "jsstring \<Rightarrow> jsstring" where
  "extractLink_p0 t =
     (case str_match t http_link of
        Some m \<Rightarrow> group1 m
      | None \<Rightarrow> portal)"

definition marker_p0 :: rx where
  "marker_p0 =
     alts [Seq (plus digit) (one CHR ''.''),
           Seq (Cls False [nl]) (one CHR ''-''),
           lit ''**'',
           Seq (Cls False [nl]) (Rep 1 3 (one CHR ''#''))]"

definition split_re_p0 :: regexp where
  "split_re_p0 = RegExp marker_p0 False False"

text \<open>The condition under \<open>// Only add if we have a meaningful name\<close>.\<close>

definition valid_p0 :: "scholarship \<Rightarrow> bool" where
  "valid_p0 sch =
     (name sch \<noteq> [] \<and> 10 < length (name sch) \<and>
      (includes_str (toLowerCase (name sch)) (js ''scholarship'') \<or>
       includes_str (toLowerCase (name sch)) (js ''grant'') \<or>
       includes_str (toLowerCase (name sch)) (js ''award'')))"

definition candidate_p0 :: "jsstring \<Rightarrow> scholarship" where
  "candidate_p0 section =
     \<lparr>name = extractName section,
      amount = extractAmount_p0 section,
      eligibility = extractEligibility_p0 section,
      deadline = extractDeadline_p0 section,
      description = extractDescription_p0 section,
      link = extractLink_p0 section\<rparr>"

text \<open>The loop \<open>for (const section of sections)\<close>, with the array \<open>scholarships\<close> passed along.\<close>

fun sections_loop_p0 :: "jsstring list \<Rightarrow> scholarship list \<Rightarrow> scholarship list" where
  "sections_loop_p0 [] scholarships = scholarships"
| "sections_loop_p0 (section # rest) scholarships =
     (if length section < 50 then sections_loop_p0 rest scholarships
      else if valid_p0 (candidate_p0 section)
        then sections_loop_p0 rest (scholarships @ [candidate_p0 section])
        else sections_loop_p0 rest scholarships)"

definition fallback_p0 :: "scholarship list" where
  "fallback_p0 =
     [\<lparr>name = js ''National Scholarship Portal'',
       amount = [rupee] @ js ''12,000 - '' @ [rupee] @ js ''2,00,000 per year'',
       eligibility = js ''Various categories - merit and need based'',
       deadline = js ''October to December 2025'',
       description = js ''Government scholarship platform with multiple schemes for different student categories.'',
       link = js ''https://scholarships.gov.in''\<rparr>,
      \<lparr>name = js ''Post Matric Scholarship for SC/ST'',
       amount = [rupee] @ js ''230 - '' @ [rupee] @ js ''1,200 per month'',
       eligibility = js ''SC/ST students in higher education'',
       deadline = js ''November 2025'',
       description = js ''Central government scholarship for SC/ST students pursuing post-matric courses.'',
       link = js ''https://scholarships.gov.in''\<rparr>,
      \<lparr>name = js ''Merit cum Means Scholarship'',
       amount = [rupee] @ js ''20,000 per year'',
       eligibility = js ''Family income below '' @ [rupee] @ js ''2.5 lakh, 80%+ marks'',
       deadline = js ''December 2025'',
       description = js ''For meritorious students from economically weaker sections.'',
       link = js ''https://scholarships.gov.in''\<rparr>]"

text \<open>
  The body of the \<open>try\<close> block. On a string no statement of it throws (every capture
  that is read belongs to a match, and \<open>extractLink\<close> of the other variant catches the
  failure of \<open>new URL\<close> itself); on a value that is not a string the call of \<open>split\<close>
  throws. It comes before the loop, so the array \<open>scholarships\<close> is still empty when the
  handler runs. The handler only logs, and the function returns \<open>scholarships.slice(0, 8)\<close>
  either way.
\<close>

definition parse_try_p0 :: "js_value \<Rightarrow> error + scholarship list" where
  "parse_try_p0 v =
     (case v of
        JOther \<Rightarrow> Inl TypeError
      | JString t \<Rightarrow>
          (let scholarships = sections_loop_p0 (str_split t split_re_p0) []
           in Inr (if scholarships = [] then fallback_p0 else scholarships)))"

definition parseScholarships :: "js_value \<Rightarrow> scholarship list" where
  "parseScholarships v =
     take 8 (case parse_try_p0 v of Inl e \<Rightarrow> [] | Inr scholarships \<Rightarrow> scholarships)"

section \<open>The richer variant (src/server.js)\<close>

definition kw5 :: rx where
  "kw5 = alts [word2 CHR ''S'' CHR ''s'' ''cholarship'', word2 CHR ''G'' CHR ''g'' ''rant'',
     word2 CHR ''F'' CHR ''f'' ''ellowship'', word2 CHR ''A'' CHR ''a'' ''ward'',
     word2 CHR ''S'' CHR ''s'' ''cheme'']"

definition kw6 :: rx where
  "kw6 = alts [word2 CHR ''S'' CHR ''s'' ''cholarship'', word2 CHR ''G'' CHR ''g'' ''rant'',
     word2 CHR ''F'' CHR ''f'' ''ellowship'', word2 CHR ''A'' CHR ''a'' ''ward'',
     word2 CHR ''S'' CHR ''s'' ''cheme'', word2 CHR ''Y'' CHR ''y'' ''ojana'']"

definition name_patterns :: "regexp list" where
  "name_patterns =
     [RegExp (seqs [alts [Seq (plus digit) (one CHR ''.''), lit ''**'', lit ''##''], Star space,
        Grp (Seq (plus not_stop) kw6)]) True False,
      RegExp (Grp (seqs [upper_AZ, Rep 8 60 name_chars, kw6])) False False,
      RegExp (Seq Bol (Grp (seqs [upper_AZ, Rep 10 100 not_stop, kw5]))) False True]"

text \<open>\<open>/^(The |A )/i\<close>, the leading article.\<close>

definition article :: regexp where
  "article = RegExp (Seq Bol (Grp (Alt (lit ''The '') (lit ''A '')))) True False"

text \<open>
  The loop of \<open>extractScholarshipName\<close>: a pattern whose match has an empty capture, or
  whose trimmed and stripped capture is not longer than 10 and shorter than 150, is passed
  over and the next pattern is tried.
\<close>

fun name_loop :: "jsstring \<Rightarrow> regexp list \<Rightarrow> jsstring" where
  "name_loop t [] = js ''Educational Opportunity''"
| "name_loop t (pattern # rest) =
     (case str_match t pattern of
        None \<Rightarrow> name_loop t rest
      | Some m \<Rightarrow>
          if group1 m = [] then name_loop t rest
          else if 10 < length (str_remove (trim (group1 m)) article)
                  \<and> length (str_remove (trim (group1 m)) article) < 150
            then str_remove (trim (group1 m)) article
            else name_loop t rest)"

definition extractScholarshipName :: "jsstring \<Rightarrow> jsstring" where
  "extractScholarshipName t = name_loop t name_patterns"

text \<open>
  The amount patterns carry the global flag, so \<open>match\<close> returns every match; the code
  reads \<open>matches[0]\<close>, the first one, which is the match of the search without the flag.
\<close>

definition amount_patterns :: "regexp list" where
  "amount_patterns =
     [RegExp (seqs [Cls False [Ch rupee], plus amount_chars,
        opt (Seq (Star space) (alts [lit ''lakh'', lit ''crore'', lit ''per year'', lit ''per month'',
          lit ''annually'', lit ''monthly'']))]) True False,
      RegExp (seqs [lit ''Rs'', opt (one CHR ''.''), Star space, plus amount_chars,
        opt (Seq (Star space) (alts [lit ''lakh'', lit ''crore'', lit ''per year'', lit ''per month'',
          lit ''annually'']))]) True False,
      RegExp (seqs [lit ''INR'', Star space, plus amount_chars]) True False,
      RegExp (seqs [lit ''up to'', Star space, opt (Cls False [Ch rupee]), plus amount_chars])
        True False,
      RegExp (seqs [lit ''amount'', Star colon_space, opt (Cls False [Ch rupee]), plus amount_chars,
        opt (Seq (Star space) (alts [lit ''lakh'', lit ''crore'', lit ''per year'']))]) True False]"

definition extractAmount :: "jsstring \<Rightarrow> jsstring" where
  "extractAmount t =
     (case first_match t amount_patterns of
        Some m \<Rightarrow> trim (fst m)
      | None \<Rightarrow> js ''Amount varies'')"

definition eligibility_patterns :: "regexp list" where
  "eligibility_patterns =
     [RegExp (seqs [lit ''eligibility'', Star colon_space, Grp (Rep 20 150 not_stop)]) True False,
      RegExp (seqs [lit ''eligible'', Star colon_space, Grp (Rep 20 150 not_stop)]) True False,
      RegExp (seqs [lit ''criteria'', Star colon_space, Grp (Rep 20 150 not_stop)]) True False,
      RegExp (seqs [lit ''requirement'', opt (one CHR ''s''), Star colon_space,
        Grp (Rep 20 150 not_stop)]) True False,
      RegExp (seqs [lit ''for'', plus space,
        Grp (Seq (Rep 25 120 not_stop) (Alt (lit ''students'') (lit ''candidates'')))]) True False]"

fun eligibility_loop :: "jsstring \<Rightarrow> regexp list \<Rightarrow> jsstring" where
  "eligibility_loop t [] = js ''Check official website for detailed eligibility criteria''"
| "eligibility_loop t (pattern # rest) =
     (case str_match t pattern of
        None \<Rightarrow> eligibility_loop t rest
      | Some m \<Rightarrow>
          if group1 m = [] then eligibility_loop t rest
          else if 20 < length (trim (group1 m)) then trim (group1 m)
          else eligibility_loop t rest)"

definition extractEligibility :: "jsstring \<Rightarrow> jsstring" where
  "extractEligibility t = eligibility_loop t eligibility_patterns"

definition year_2025_6 :: rx where
  "year_2025_6 = Seq (lit ''202'') (Cls False [rng CHR ''5'' CHR ''6''])"

definition deadline_patterns :: "regexp list" where
  "deadline_patterns =
     [RegExp (seqs [lit ''deadline'', Star colon_space, Grp (Rep 10 60 not_stop)]) True False,
      RegExp (seqs [lit ''due'', Star colon_space,
        Grp (seqs [lit ''by'', plus space, Rep 8 50 not_stop])]) True False,
      RegExp (seqs [lit ''apply by'', Star colon_space, Grp (Rep 10 50 not_stop)]) True False,
      RegExp (seqs [lit ''last date'', Star colon_space, Grp (Rep 10 50 not_stop)]) True False,
      RegExp (seqs [WordB, months, plus space, Rep 1 2 digit,
        opt (alts [lit ''st'', lit ''nd'', lit ''rd'', lit ''th'']), opt (one CHR '',''), Star space,
        year_2025_6, WordB]) False False,
      RegExp (seqs [Rep 1 2 digit, Cls False [ch CHR ''/'', ch CHR ''-''], Rep 1 2 digit,
        Cls False [ch CHR ''/'', ch CHR ''-''], year_2025_6]) False False,
      RegExp (seqs [year_2025_6, Star space, Alt (lit ''deadline'') (lit ''due'')]) True False]"

definition extractDeadline :: "jsstring \<Rightarrow> jsstring" where
  "extractDeadline t =
     (case first_match t deadline_patterns of
        Some m \<Rightarrow> trim (group_or_whole m)
      | None \<Rightarrow> js ''Check official website for application deadlines'')"

definition relevant :: "jsstring \<Rightarrow> bool" where
  "relevant sentence =
     (40 < length sentence \<and> length sentence < 200 \<and>
      \<not> includes_str (toLowerCase sentence) (js ''scholarship name'') \<and>
      \<not> includes_str (toLowerCase sentence) (js ''eligibility criteria'') \<and>
      \<not> includes_str (toLowerCase sentence) (js ''application deadline''))"

definition extractDescription :: "jsstring \<Rightarrow> jsstring" where
  "extractDescription t =
     (let sentences = str_split t
            (RegExp (plus (Cls False [ch CHR ''.'', ch CHR ''!'', ch CHR ''?''])) False False);
          relevantSentences = take 2 (filter relevant sentences)
      in (if relevantSentences \<noteq> [] then trim (join (js ''. '') relevantSentences) @ js ''.''
          else js ''Financial assistance program for eligible students to pursue higher education.''))"

definition link_patterns :: "regexp list" where
  "link_patterns =
     [http_link,
      RegExp (seqs [alts [lit ''website'', lit ''portal'', lit ''apply''], Star colon_space,
        Grp (Seq (lit ''www.'') (plus (Cls True [Space])))]) True False,
      RegExp (seqs [Alt (lit ''visit'') (lit ''check''), Star colon_space,
        Grp (Seq (lit ''www.'') (plus (Cls True [Space])))]) True False]"

text \<open>
  The loop of \<open>extractLink\<close>. \<open>new URL(link)\<close> belongs to the platform, not to the
  repository: \<open>urlOk link\<close> says that the constructor accepts \<open>link\<close> (it throws otherwise,
  and the \<open>catch\<close> goes on with the next pattern). \<open>None\<close> is \<open>null\<close>.
\<close>

fun link_loop :: "(jsstring \<Rightarrow> bool) \<Rightarrow> jsstring \<Rightarrow> regexp list \<Rightarrow> jsstring option" where
  "link_loop urlOk t [] = None"
| "link_loop urlOk t (pattern # rest) =
     (case str_match t pattern of
        None \<Rightarrow> link_loop urlOk t rest
      | Some m \<Rightarrow>
          (let l = group_or_whole m;
               l' = (if startsWith l (js ''http'') then l else js ''https://'' @ l)
           in if urlOk l' then Some l' else link_loop urlOk t rest))"

definition extractLink :: "(jsstring \<Rightarrow> bool) \<Rightarrow> jsstring \<Rightarrow> jsstring option" where
  "extractLink urlOk t = link_loop urlOk t link_patterns"

text \<open>\<open>extractLink(text) || 'https://scholarships.gov.in'\<close>: \<open>null\<close> and the empty string are falsy.\<close>

fun or_portal :: "jsstring option \<Rightarrow> jsstring" where
  "or_portal None = portal"
| "or_portal (Some l) = (if l = [] then portal else l)"

definition extractScholarshipInfo :: "(jsstring \<Rightarrow> bool) \<Rightarrow> jsstring \<Rightarrow> scholarship" where
  "extractScholarshipInfo urlOk t =
     \<lparr>name = extractScholarshipName t,
      amount = extractAmount t,
      eligibility = extractEligibility t,
      deadline = extractDeadline t,
      description = extractDescription t,
      link = or_portal (extractLink urlOk t)\<rparr>"

text \<open>
  The pattern of the split is \<open>(?=marker)\<close>: a lookahead for a numbered item, a heading,
  a bold or a plain line that names a scholarship, or a bullet.
\<close>

definition marker :: rx where
  "marker =
     alts [Seq (plus digit) (one CHR ''.''),
           Seq (Cls False [nl]) (lit ''##''),
           seqs [lit ''**'', upper_AZ, Star dot, word2 CHR ''S'' CHR ''s'' ''cholarship''],
           seqs [Cls False [nl], upper_AZ, Star dot, word2 CHR ''S'' CHR ''s'' ''cholarship''],
           seqs [Cls False [nl], lit ''- '', upper_AZ]]"

definition split_re :: regexp where
  "split_re = RegExp (Look marker) False False"

text \<open>The condition under \<open>// Enhanced validation\<close>.\<close>

definition valid :: "scholarship \<Rightarrow> bool" where
  "valid sch =
     (name sch \<noteq> [] \<and> 8 < length (name sch) \<and> length (name sch) < 200 \<and>
      \<not> includes_str (toLowerCase (name sch)) (js ''here are'') \<and>
      \<not> includes_str (toLowerCase (name sch)) (js ''following'') \<and>
      (includes_str (toLowerCase (name sch)) (js ''scholarship'') \<or>
       includes_str (toLowerCase (name sch)) (js ''grant'') \<or>
       includes_str (toLowerCase (name sch)) (js ''fellowship'') \<or>
       includes_str (toLowerCase (name sch)) (js ''award'') \<or>
       includes_str (toLowerCase (name sch)) (js ''scheme'')))"

text \<open>
  The loop \<open>for (let i = 0; i < sections.length && scholarships.length < 10; i++)\<close>, over
  the sections from index \<open>i\<close> on.
\<close>

fun sections_loop :: "(jsstring \<Rightarrow> bool) \<Rightarrow> jsstring list \<Rightarrow> scholarship list \<Rightarrow> scholarship list" where
  "sections_loop urlOk [] scholarships = scholarships"
| "sections_loop urlOk (s # rest) scholarships =
     (if length scholarships < 10 then
        (if length (trim s) < 100 then sections_loop urlOk rest scholarships
         else if valid (extractScholarshipInfo urlOk (trim s))
           then sections_loop urlOk rest (scholarships @ [extractScholarshipInfo urlOk (trim s)])
           else sections_loop urlOk rest scholarships)
      else scholarships)"

definition fallback :: "scholarship list" where
  "fallback =
     [\<lparr>name = js ''National Scholarship Portal (NSP)'',
       amount = [rupee] @ js ''12,000 - '' @ [rupee] @ js ''2,00,000 per year'',
       eligibility = js ''Various categories including merit-based, need-based, SC/ST, OBC, and minority students'',
       deadline = js ''Multiple deadlines (Usually October to December 2025)'',
       description = js ''Government of India'' @ [39] @ js ''s centralized platform offering various scholarship schemes for students across different categories and educational levels.'',
       link = js ''https://scholarships.gov.in''\<rparr>,
      \<lparr>name = js ''Post Matric Scholarship Scheme for SC Students'',
       amount = [rupee] @ js ''230 - '' @ [rupee] @ js ''1,200 per month + academic fees'',
       eligibility = js ''SC students pursuing post-matriculation studies with family income below '' @ [rupee] @ js ''2.5 lakh'',
       deadline = js ''November 30, 2025'',
       description = js ''Central government scheme providing financial assistance to SC students for higher education.'',
       link = js ''https://scholarships.gov.in''\<rparr>,
      \<lparr>name = js ''Merit cum Means Scholarship for Professional Courses'',
       amount = [rupee] @ js ''20,000 per year'',
       eligibility = js ''Students with family income below '' @ [rupee] @ js ''2.5 lakh and good academic record (80% or above)'',
       deadline = js ''December 31, 2025'',
       description = js ''UGC scheme for economically weaker students pursuing professional courses.'',
       link = js ''https://scholarships.gov.in''\<rparr>,
      \<lparr>name = js ''Inspire Scholarship for Higher Education'',
       amount = [rupee] @ js ''80,000 per year'',
       eligibility = js ''Top 1% students in Class XII board examination pursuing B.Sc./B.S./B.Tech./Integrated M.Sc.'',
       deadline = js ''July 31, 2025'',
       description = js ''DST scheme to attract talented students to pursue careers in science and technology.'',
       link = js ''https://online-inspire.gov.in''\<rparr>]"

text \<open>
  The body of the \<open>try\<close> block, as in the simpler variant: only the call of \<open>split\<close> can
  throw, before anything is pushed; the handler logs and the function returns
  \<open>scholarships.slice(0, 8)\<close>.
\<close>

definition parse_try :: "(jsstring \<Rightarrow> bool) \<Rightarrow> js_value \<Rightarrow> error + scholarship list" where
  "parse_try urlOk responseText =
     (case responseText of
        JOther \<Rightarrow> Inl TypeError
      | JString t \<Rightarrow>
          (let scholarships = sections_loop urlOk (str_split t split_re) []
           in Inr (if scholarships = [] then fallback else scholarships)))"

definition parseScholarshipResponse :: "(jsstring \<Rightarrow> bool) \<Rightarrow> js_value \<Rightarrow> scholarship list" where
  "parseScholarshipResponse urlOk responseText =
     take 8 (case parse_try urlOk responseText of Inl e \<Rightarrow> [] | Inr scholarships \<Rightarrow> scholarships)"

section \<open>Properties named by the specification\<close>

text \<open>A name contains one of the five keywords, compared without regard to case.\<close>

definition has_keyword :: "jsstring \<Rightarrow> bool" where
  "has_keyword n =
     (includes_str (toLowerCase n) (js ''scholarship'') \<or>
      includes_str (toLowerCase n) (js ''grant'') \<or>
      includes_str (toLowerCase n) (js ''fellowship'') \<or>
      includes_str (toLowerCase n) (js ''award'') \<or>
      includes_str (toLowerCase n) (js ''scheme''))"

text \<open>
  The validator as section 4.3 of the specification words it, for the richer and for the
  simpler variant: the name is present, has at least 8 (10) and at most 200 characters,
  contains neither phrase (richer variant only) and contains a keyword.
\<close>

definition spec_accepts_rich :: "jsstring \<Rightarrow> bool" where
  "spec_accepts_rich n =
     (n \<noteq> [] \<and> 8 \<le> length n \<and> length n \<le> 200 \<and>
      \<not> includes_str (toLowerCase n) (js ''here are'') \<and>
      \<not> includes_str (toLowerCase n) (js ''following'') \<and> has_keyword n)"

definition spec_accepts_simple :: "jsstring \<Rightarrow> bool" where
  "spec_accepts_simple n = (n \<noteq> [] \<and> 10 \<le> length n \<and> length n \<le> 200 \<and> has_keyword n)"

text \<open>
  A link with the scheme \<open>http\<close> or \<open>https\<close> and an empty host: after the scheme and any
  slashes the link ends, or the query or the fragment starts. No URL parser accepts such a
  link (a host is required for these schemes), so \<open>new URL\<close> throws on it.
\<close>

definition is_slash :: "nat \<Rightarrow> bool" where
  "is_slash c = (c = 47 \<or> c = 92)"

fun host_missing :: "jsstring \<Rightarrow> bool" where
  "host_missing [] = True"
| "host_missing (c # cs) = (c = 63 \<or> c = 35)"

definition empty_host :: "jsstring \<Rightarrow> bool" where
  "empty_host l =
     (if prefix (js ''https:'') l then host_missing (dropWhile is_slash (drop 6 l))
      else if prefix (js ''http:'') l then host_missing (dropWhile is_slash (drop 5 l))
      else False)"

text \<open>Stripping a leading article, \<open>The\<close> or \<open>A\<close> in either case, from a name.\<close>

definition strip_article :: "jsstring \<Rightarrow> jsstring" where
  "strip_article s =
     (if toLowerCase (take 4 s) = js ''the '' then drop 4 s
      else if toLowerCase (take 2 s) = js ''a '' then drop 2 s
      else s)"

text \<open>The candidates that the loops accept, in the order of the sections.\<close>

definition accepted :: "(jsstring \<Rightarrow> bool) \<Rightarrow> jsstring list \<Rightarrow> scholarship list" where
  "accepted urlOk sections =
     filter valid (map (extractScholarshipInfo urlOk)
       (filter (\<lambda>s. \<not> length s < 100) (map trim sections)))"

definition accepted_p0 :: "jsstring list \<Rightarrow> scholarship list" where
  "accepted_p0 sections =
     filter valid_p0 (map candidate_p0 (filter (\<lambda>s. \<not> length s < 50) sections))"

text \<open>
  \<open>matches_at b t q\<close>: the pattern \<open>b\<close> matches in the text \<open>t\<close> at index \<open>q\<close>;
  \<open>before t q\<close> is the code unit in front of that index.
\<close>

definition before :: "jsstring \<Rightarrow> nat \<Rightarrow> nat option" where
  "before t q = (if q = 0 then None else Some (t ! (q - 1)))"

definition matches_at :: "rx \<Rightarrow> jsstring \<Rightarrow> nat \<Rightarrow> bool" where
  "matches_at b t q = (run False False [R b] q (before t q) (drop q t) None \<noteq> None)"

text \<open>
  The pieces of a text cut at the given positions, with nothing left out, and the positions
  after the start of a text at which a pattern matches.
\<close>

fun cut_at :: "nat list \<Rightarrow> nat \<Rightarrow> jsstring \<Rightarrow> jsstring list" where
  "cut_at [] p t = [drop p t]"
| "cut_at (q # qs) p t = slice p q t # cut_at qs q t"

definition marker_positions :: "rx \<Rightarrow> jsstring \<Rightarrow> nat list" where
  "marker_positions b t = filter (matches_at b t) [1..<length t]"

text \<open>
  \<open>match_end b t q\<close> is the end of the match of \<open>b\<close> in \<open>t\<close> at \<open>q\<close>, if there is one;
  \<open>free_of b t a z\<close> says that \<open>b\<close> matches at no index from \<open>a\<close> up to \<open>z\<close>.
  \<open>laid_out b t p xs\<close> describes a consuming split from the index \<open>p\<close> on: each piece but
  the last lies in the text free of matches and is followed by a match of \<open>b\<close>, which is
  left out and after which the next piece starts; the last piece runs to the end of the
  text.
\<close>

definition match_end :: "rx \<Rightarrow> jsstring \<Rightarrow> nat \<Rightarrow> nat option" where
  "match_end b t q = map_option fst (run False False [R b] q (before t q) (drop q t) None)"

definition free_of :: "rx \<Rightarrow> jsstring \<Rightarrow> nat \<Rightarrow> nat \<Rightarrow> bool" where
  "free_of b t a z = (filter (\<lambda>j. match_end b t j \<noteq> None) [a..<z] = [])"

fun laid_out :: "rx \<Rightarrow> jsstring \<Rightarrow> nat \<Rightarrow> jsstring list \<Rightarrow> bool" where
  "laid_out b t p [] = False"
| "laid_out b t p [x] = (x = drop p t \<and> free_of b t p (length t))"
| "laid_out b t p (x # y # ys) =
     (x = slice p (p + length x) t \<and> free_of b t p (p + length x) \<and>
      (case match_end b t (p + length x) of
         None \<Rightarrow> False
       | Some e \<Rightarrow> p + length x < e \<and> laid_out b t e (y # ys)))"

text \<open>
  The name that one pattern of the richer variant offers: the capture, trimmed and without
  its article, when it has more than 10 and fewer than 150 characters. The link that one
  pattern offers: the capture, or the whole match, with \<open>https://\<close> in front unless it starts
  with \<open>http\<close>.
\<close>

definition name_candidate :: "jsstring \<Rightarrow> regexp \<Rightarrow> jsstring option" where
  "name_candidate t re =
     (case str_match t re of
        None \<Rightarrow> None
      | Some m \<Rightarrow>
          if 10 < length (strip_article (trim (group1 m)))
             \<and> length (strip_article (trim (group1 m))) < 150
          then Some (strip_article (trim (group1 m))) else None)"

definition link_candidate :: "jsstring \<Rightarrow> regexp \<Rightarrow> jsstring option" where
  "link_candidate t re =
     (case str_match t re of
        None \<Rightarrow> None
      | Some m \<Rightarrow>
          Some (if startsWith (group_or_whole m) (js ''http'') then group_or_whole m
                else js ''https://'' @ group_or_whole m))"

text \<open>
  The step of \<open>split_loop\<close> on the result of the match at the current index, for
  evaluating the loop on a given text.
\<close>

definition split_step ::
  "(nat \<times> (nat \<times> nat) option) option \<Rightarrow> bool \<Rightarrow> bool \<Rightarrow> rx \<Rightarrow> jsstring \<Rightarrow> nat \<Rightarrow> nat \<Rightarrow> nat option
     \<Rightarrow> nat \<Rightarrow> jsstring \<Rightarrow> jsstring list" where
  "split_step m ic ml r t p q pv x xs =
     (case m of
        None \<Rightarrow> split_loop ic ml r t p (q + 1) (Some x) xs
      | Some (e, c) \<Rightarrow>
          if e = p then split_loop ic ml r t p (q + 1) (Some x) xs
          else slice p q t #
               split_loop ic ml r t e e
                 (if e = q then pv else Some ((x # xs) ! (e - q - 1))) (drop (e - q) (x # xs)))"

section \<open>Inputs of the examples\<close>

text \<open>
  The texts on which the functions are evaluated below: a sentence with a link without a
  host; the filler sentence of the specification, once and twice; a section of 50
  characters without a capital letter and a text of 11 such sections between bold markers;
  a section of five short sentences, in which no pattern of the simpler variant matches; a
  numbered title with an article; a text with a numbered item; a text with a link without
  a host and a bare domain after it; the scenario of the specification; three sections of
  the simpler variant whose names are \<open>Best Scheme\<close>, \<open>Some Grant\<close> and a name of 207
  characters; a text in which the first name pattern offers a name of 10 characters and the
  second a longer one; a text with the item number 10. \<open>has_host\<close> is the URL check used
  for them.
\<close>

definition text_link :: jsstring where
  "text_link = js ''Merit Scholarship for students, apply at http://? before the deadline''"

definition filler :: jsstring where
  "filler = js ''Thank you for your question. Here is some general advice about funding your education.''"

definition seg50 :: jsstring where
  "seg50 = js ''xxxxxxxxxxxxxxxxxxxxxxxxxxxxxxxxxxxxxxxxxxxxxxxxxx''"

definition text11 :: jsstring where
  "text11 =
     seg50 @ js ''**'' @ seg50 @ js ''**'' @ seg50 @ js ''**'' @ seg50 @ js ''**'' @
     seg50 @ js ''**'' @ seg50 @ js ''**'' @ seg50 @ js ''**'' @ seg50 @ js ''**'' @
     seg50 @ js ''**'' @ seg50 @ js ''**'' @ seg50 @ js ''**''"

definition seg_plain :: jsstring where
  "seg_plain = js ''xxxxxxxxx.xxxxxxxxx.xxxxxxxxx.xxxxxxxxx.xxxxxxxxx.''"

definition award_text :: jsstring where
  "award_text = js ''1. The Best Merit Award''"

definition numbered :: jsstring where
  "numbered = js ''a 1. b''"

definition two_links :: jsstring where
  "two_links = js ''http://? apply: www.b.in''"

definition filler2 :: jsstring where
  "filler2 = filler @ js '' '' @ filler"

definition scenario :: jsstring where
  "scenario =
     js ''1. National Merit Scholarship'' @ [10] @
     js ''Amount: '' @ [rupee] @ js ''50,000 per year'' @ [10] @
     js ''Eligibility: for economically weaker students'' @ [10] @
     js ''Deadline: December 31, 2025'' @ [10] @
     js ''https://example.gov.in/apply''"

definition scheme_text :: jsstring where
  "scheme_text = js ''Best Scheme is open to all the students of this state now.''"

definition grant_text :: jsstring where
  "grant_text = js ''Some Grant is open to all the students of this state now.''"

definition long_text :: jsstring where
  "long_text = js ''Abbbbbbbbbbbbbbbbbbbbbbbbbbbbbbbbbbbbbbbbbbbbbbbbbbbbbbbbbbbbbbbbbbbbbbbbbbbbbbbbbbbbbbbbbbbbbbbbbbbbbbbbbbbbbbbbbbbbbbbbbbbbbbbbbbbbbbbbbbbbbbbbbbbbbbbbbbbbbbbbbbbbbbbbbbbbbbbbbbbbbbbbbbbbbbbbbbbbbbbb Award''"

definition next_text :: jsstring where
  "next_text = js ''1. Some Award'' @ [10] @ js ''National Merit Scholarship''"

definition nine :: "scholarship list" where
  "nine = fallback @ fallback @ take 1 fallback"

definition top_text :: jsstring where
  "top_text = js ''Top 10. Foo''"

definition foo_text :: jsstring where
  "foo_text = js ''1. Foo''"

definition has_host :: "jsstring \<Rightarrow> bool" where
  "has_host l = (\<not> empty_host l)"

definition ten :: "scholarship list" where
  "ten = fallback @ fallback @ take 2 fallback"

section \<open>Lemmas\<close>

lemma split_loop_Cons:
  "split_loop ic ml r t p q pv (x # xs) =
     split_step (run ic ml [R r] q pv (x # xs) None) ic ml r t p q pv x xs"
  by (simp add: split_step_def)

lemma split_step_simps:
  "split_step None ic ml r t p q pv x xs = split_loop ic ml r t p (q + 1) (Some x) xs"
  "split_step (Some (e, c)) ic ml r t p q pv x xs =
     (if e = p then split_loop ic ml r t p (q + 1) (Some x) xs
      else slice p q t #
           split_loop ic ml r t e e
             (if e = q then pv else Some ((x # xs) ! (e - q - 1))) (drop (e - q) (x # xs)))"
  by (simp_all add: split_step_def)

declare split_loop.simps(2) [simp del]


lemmas rx_defs = one_def ch_def rng_def lit_def plus_def opt_def nl_def dot_def digit_def
  space_def upper_AZ_def not_stop_def word2_def amount_chars_def name_chars_def colon_space_def
  months_def http_link_def kw5_def kw6_def year_2025_6_def article_def marker_def marker_p0_def

lemmas chr_defs = in_cls_def is_space_def is_digit_def is_word_def is_line_end_def lower_def
  upper_def at_bol_def at_wordb_def js_def rupee_def slice_def trim_def toLowerCase_def
  startsWith_def portal_def split_loop_Cons split_step_simps

lemma valid_has_keyword: "valid sch \<Longrightarrow> name sch \<noteq> [] \<and> has_keyword (name sch)"
  by (auto simp: valid_def has_keyword_def)

lemma valid_p0_has_keyword: "valid_p0 sch \<Longrightarrow> name sch \<noteq> [] \<and> has_keyword (name sch)"
  by (auto simp: valid_p0_def has_keyword_def)

lemma sections_loop_acc:
  "sections_loop urlOk ss acc = acc @ take (10 - length acc) (accepted urlOk ss)"
proof (induction ss arbitrary: acc)
  case Nil
  show ?case by (simp add: accepted_def)
next
  case (Cons s rest)
  show ?case
  proof (cases "length acc < 10")
    case False
    then show ?thesis by simp
  next
    case True
    then have pos: "10 - length acc = Suc (10 - length (acc @ [extractScholarshipInfo urlOk (trim s)]))"
      by simp
    show ?thesis
      using True Cons.IH [of acc] Cons.IH [of "acc @ [extractScholarshipInfo urlOk (trim s)]"]
      by (auto simp: accepted_def pos simp del: length_append)
  qed
qed

lemma sections_loop_p0_acc: "sections_loop_p0 ss acc = acc @ accepted_p0 ss"
  by (induction ss arbitrary: acc) (auto simp: accepted_p0_def)

lemma parse_rich_eq:
  "parseScholarshipResponse urlOk (JString t) =
     take 8 (if accepted urlOk (str_split t split_re) = [] then fallback
             else accepted urlOk (str_split t split_re))"
  by (auto simp: parseScholarshipResponse_def parse_try_def sections_loop_acc Let_def min_def take_eq_Nil)

lemma parse_p0_eq:
  "parseScholarships (JString t) =
     take 8 (if accepted_p0 (str_split t split_re_p0) = [] then fallback_p0
             else accepted_p0 (str_split t split_re_p0))"
  by (simp add: parseScholarships_def parse_try_p0_def sections_loop_p0_acc Let_def)

lemma length_fallback: "length fallback = 4" "length fallback_p0 = 3"
  by (simp_all add: fallback_def fallback_p0_def)

lemma fallback_names:
  "r \<in> set fallback \<Longrightarrow> name r \<noteq> [] \<and> has_keyword (name r)"
  "r \<in> set fallback_p0 \<Longrightarrow> name r \<noteq> [] \<and> has_keyword (name r)"
  by (auto simp: fallback_def fallback_p0_def has_keyword_def js_def toLowerCase_def lower_def)

lemma accepted_valid:
  "r \<in> set (accepted urlOk ss) \<Longrightarrow> valid r"
  "r \<in> set (accepted_p0 ss) \<Longrightarrow> valid_p0 r"
  by (auto simp: accepted_def accepted_p0_def)

lemma run_look:
  "run ic ml [R (Look b)] q pv s None =
     (case run ic ml [R b] q pv s None of None \<Rightarrow> None | Some m \<Rightarrow> Some (q, None))"
  by (cases "run ic ml [R b] q pv s None") simp_all

lemma drop_eq_ConsD:
  assumes "drop q t = x # xs"
  shows "q < length t" "t ! q = x" "drop (Suc q) t = xs"
proof -
  show q: "q < length t" using assms by (cases "q < length t") auto
  from Cons_nth_drop_Suc [OF q] assms show "t ! q = x" "drop (Suc q) t = xs" by auto
qed

lemma slice_drop: "p \<le> q \<Longrightarrow> slice p q t @ drop q t = drop p t"
proof -
  assume "p \<le> q"
  then have "drop q t = drop (q - p) (drop p t)" by simp
  then show ?thesis unfolding slice_def by (metis append_take_drop_id)
qed

lemma split_look:
  assumes "r = Look b" "ic = False" "ml = False" "s = drop q t" "p \<le> q" "pv = before t q"
  shows "concat (split_loop ic ml r t p q pv s) = drop p t \<and>
         (\<forall>k. 0 < k \<and> k < length (split_loop ic ml r t p q pv s) \<longrightarrow>
              matches_at b t (p + length (concat (take k (split_loop ic ml r t p q pv s)))))"
  using assms
proof (induction ic ml r t p q pv s rule: split_loop.induct)
  case (1 ic ml r t p q pv)
  then show ?case by simp
next
  case (2 ic ml r t p q pv x xs)
  from 2(7) have d: "q < length t" "t ! q = x" "drop (Suc q) t = xs"
    using drop_eq_ConsD [of q t x xs] by auto
  have nxt: "xs = drop (q + 1) t" "p \<le> q + 1" "Some x = before t (q + 1)"
    using d 2(8) by (auto simp: before_def)
  show ?case
  proof (cases "run ic ml [R b] q pv (x # xs) None")
    case None
    then have m: "run ic ml [R r] q pv (x # xs) None = None"
      using 2(4) by (simp add: run_look)
    from 2(1) [OF m 2(4,5,6) nxt] show ?thesis
      using m by (simp add: split_loop.simps(2))
  next
    case (Some res)
    then have m: "run ic ml [R r] q pv (x # xs) None = Some (q, None)"
      using 2(4) by (simp add: run_look)
    show ?thesis
    proof (cases "q = p")
      case True
      from 2(2) [OF m refl True 2(4,5,6) nxt] show ?thesis
        using m True by (simp add: split_loop.simps(2))
    next
      case False
      let ?rest = "split_loop ic ml r t q q pv (x # xs)"
      have ih: "concat ?rest = drop q t \<and>
         (\<forall>k. 0 < k \<and> k < length ?rest \<longrightarrow> matches_at b t (q + length (concat (take k ?rest))))"
        using 2(3) [OF m refl False 2(4,5,6)] 2(7,9) by simp
      have eq: "split_loop ic ml r t p q pv (x # xs) = slice p q t # ?rest"
        using m False by (subst split_loop.simps(2)) simp
      have len: "length (slice p q t) = q - p"
        using d(1) 2(8) by (simp add: slice_def)
      have cat: "slice p q t @ drop q t = drop p t"
        using 2(8) by (rule slice_drop)
      have here: "matches_at b t q"
        using Some 2(5,6,7,9) by (simp add: matches_at_def)
      show ?thesis
      proof (intro conjI allI impI)
        show "concat (split_loop ic ml r t p q pv (x # xs)) = drop p t"
          using eq ih cat by simp
      next
        fix k
        assume k: "0 < k \<and> k < length (split_loop ic ml r t p q pv (x # xs))"
        show "matches_at b t (p + length (concat (take k (split_loop ic ml r t p q pv (x # xs)))))"
        proof (cases k)
          case 0
          with k show ?thesis by simp
        next
          case (Suc j)
          show ?thesis
          proof (cases "j = 0")
            case True
            then show ?thesis using Suc eq len here 2(8) by simp
          next
            case False
            then have "0 < j \<and> j < length ?rest" using k Suc eq by simp
            with ih have "matches_at b t (q + length (concat (take j ?rest)))" by blast
            then show ?thesis using Suc eq len 2(8) by (simp add: add.assoc [symmetric])
          qed
        qed
      qed
    qed
  qed
qed

lemma scan_bol_fail: "scan ic False (Seq Bol r) i (Some x) s = None"
  by (induction s arbitrary: i x) (simp_all add: at_bol_def)

lemma scan_next_bol_fail: "scan_next None ic False (Seq Bol r) i p s = None"
  by (cases s) (simp_all add: scan_bol_fail del: scan.simps)

lemma in_cls_ci:
  "in_cls True False [Ch 84] x = (lower x = 116)"
  "in_cls True False [Ch 104] x = (lower x = 104)"
  "in_cls True False [Ch 101] x = (lower x = 101)"
  "in_cls True False [Ch 65] x = (lower x = 97)"
  "in_cls True False [Ch 32] x = (lower x = 32)"
  by (auto simp: in_cls_def lower_def upper_def)

lemma str_remove_article: "str_remove s article = strip_article s"
proof -
  consider "s = []" | a where "s = [a]" | a b where "s = [a, b]" | a b c where "s = [a, b, c]"
    | a b c d u where "s = a # b # c # d # u"
    by (cases s; cases "tl s"; cases "tl (tl s)"; cases "tl (tl (tl s))") auto
  then show ?thesis
  proof cases
    case 1
    then show ?thesis
      by (simp add: article_def strip_article_def lit_def one_def ch_def at_bol_def in_cls_ci js_def toLowerCase_def)
  next
    case 2
    then show ?thesis
      by (simp add: article_def strip_article_def lit_def one_def ch_def at_bol_def in_cls_ci js_def toLowerCase_def scan_next_bol_fail)
  next
    case 3
    then show ?thesis
      by (simp add: article_def strip_article_def lit_def one_def ch_def at_bol_def in_cls_ci js_def toLowerCase_def scan_next_bol_fail)
  next
    case 4
    then show ?thesis
      by (simp add: article_def strip_article_def lit_def one_def ch_def at_bol_def in_cls_ci js_def toLowerCase_def scan_next_bol_fail)
  next
    case 5
    then show ?thesis
      by (simp add: article_def strip_article_def lit_def one_def ch_def at_bol_def in_cls_ci js_def toLowerCase_def scan_next_bol_fail)
  qed
qed


lemma name_loop_cases:
  "name_loop t ps = js ''Educational Opportunity'' \<or>
     (\<exists>re\<in>set ps. \<exists>m. str_match t re = Some m \<and>
        name_loop t ps = strip_article (trim (group1 m)) \<and>
        10 < length (name_loop t ps) \<and> length (name_loop t ps) < 150)"
proof (induction ps)
  case Nil
  show ?case by simp
next
  case (Cons re ps)
  let ?ok = "\<lambda>m. group1 m \<noteq> [] \<and> 10 < length (strip_article (trim (group1 m)))
     \<and> length (strip_article (trim (group1 m))) < 150"
  show ?case
  proof (cases "\<exists>m. str_match t re = Some m \<and> ?ok m")
    case True
    then obtain m where m: "str_match t re = Some m" "?ok m" by blast
    then have eq: "name_loop t (re # ps) = strip_article (trim (group1 m))"
      by (simp add: str_remove_article)
    have "\<exists>re'\<in>set (re # ps). \<exists>m. str_match t re' = Some m \<and>
        name_loop t (re # ps) = strip_article (trim (group1 m)) \<and>
        10 < length (name_loop t (re # ps)) \<and> length (name_loop t (re # ps)) < 150"
      using m eq by (intro bexI [of _ re] exI [of _ m]) simp_all
    then show ?thesis by blast
  next
    case False
    then have "name_loop t (re # ps) = name_loop t ps"
      by (cases "str_match t re") (auto simp: str_remove_article)
    with Cons show ?thesis by auto
  qed
qed

lemma link_loop_ok: "link_loop urlOk t ps = Some l \<Longrightarrow> urlOk l"
  by (induction ps) (auto simp: Let_def split: option.splits if_splits)

lemma link_loop_next:
  "str_match t re = Some m \<Longrightarrow>
   \<not> urlOk (if startsWith (group_or_whole m) (js ''http'') then group_or_whole m
             else js ''https://'' @ group_or_whole m) \<Longrightarrow>
   link_loop urlOk t (re # rest) = link_loop urlOk t rest"
  by (simp add: Let_def)

lemma fallback_links:
  "r \<in> set fallback \<Longrightarrow> link r = portal \<or> link r = js ''https://online-inspire.gov.in''"
  by (auto simp: fallback_def portal_def)

lemma accepted_link:
  assumes "r \<in> set (accepted urlOk ss)" "urlOk portal"
  shows "urlOk (link r)"
proof -
  from assms(1) obtain s where r: "r = extractScholarshipInfo urlOk s"
    by (auto simp: accepted_def)
  show ?thesis
  proof (cases "extractLink urlOk s")
    case None
    with r assms(2) show ?thesis by (simp add: extractScholarshipInfo_def)
  next
    case (Some l)
    then have "urlOk l" unfolding extractLink_def by (rule link_loop_ok)
    with r Some assms(2) show ?thesis by (simp add: extractScholarshipInfo_def)
  qed
qed

lemma includes_sublist: "includes_str s t = sublist t s"
  by (induction s) (simp_all add: sublist_Cons_right)

lemma sublist_lower: "sublist a b \<Longrightarrow> sublist (toLowerCase a) (toLowerCase b)"
  unfolding sublist_def toLowerCase_def by (metis map_append)

lemma has_keyword_mono:
  assumes "sublist a b" "has_keyword a"
  shows "has_keyword b"
proof -
  have "\<And>k. sublist k (toLowerCase a) \<Longrightarrow> sublist k (toLowerCase b)"
    using sublist_lower [OF assms(1)] sublist_order.order.trans by blast
  with assms(2) show ?thesis by (auto simp: has_keyword_def includes_sublist)
qed

lemma slice_sublist: "sublist (slice x y t) t"
  unfolding slice_def using sublist_take sublist_drop sublist_order.order.trans by blast

lemma trim_sublist: "sublist (trim s) s"
proof -
  have "sublist (rev (trim s)) (rev (dropWhile is_space s))"
    unfolding trim_def by simp
  then have "sublist (trim s) (dropWhile is_space s)" by simp
  then show ?thesis using sublist_dropWhile sublist_order.order.trans by blast
qed

lemma strip_sublist: "sublist (strip_article s) s"
  by (simp add: strip_article_def)

lemma str_match_sublist: "str_match t re = Some m \<Longrightarrow> sublist (group1 m) t"
  by (cases re; cases m; cases "snd m")
     (auto simp: slice_sublist split: option.splits prod.splits)

lemma placeholder_no_keyword: "\<not> has_keyword (js ''Educational Opportunity'')"
  by (simp add: has_keyword_def js_def toLowerCase_def lower_def)

lemma name_keyword:
  assumes "has_keyword (extractScholarshipName t)"
  shows "has_keyword t"
proof -
  from name_loop_cases [of t name_patterns] assms placeholder_no_keyword
  obtain re m where m: "str_match t re = Some m"
      "extractScholarshipName t = strip_article (trim (group1 m))"
    unfolding extractScholarshipName_def by auto
  have "sublist (strip_article (trim (group1 m))) t"
    using strip_sublist trim_sublist str_match_sublist [OF m(1)] sublist_order.order.trans
    by blast
  with assms m(2) show ?thesis using has_keyword_mono by metis
qed

lemma split_loop_sublist: "x \<in> set (split_loop ic ml r t p q pv s) \<Longrightarrow> sublist x t"
proof (induction ic ml r t p q pv s rule: split_loop.induct)
  case (1 ic ml r t p q pv)
  then show ?case by simp
next
  case (2 ic ml r t p q pv y ys)
  then show ?case
    by (auto simp: split_loop.simps(2) slice_sublist split: option.splits if_splits)
qed

lemma str_split_sublist: "x \<in> set (str_split t re) \<Longrightarrow> sublist x t"
  by (cases re) (auto dest: split_loop_sublist split: if_splits option.splits)

lemma valid_keyword:
  assumes "valid (extractScholarshipInfo urlOk s)"
  shows "has_keyword s"
proof -
  from valid_has_keyword [OF assms] have "has_keyword (extractScholarshipName s)"
    by (simp add: extractScholarshipInfo_def)
  then show ?thesis by (rule name_keyword)
qed

lemma no_keyword_sections:
  assumes "\<forall>s\<in>set (str_split t split_re). \<not> length (trim s) < 100 \<longrightarrow> \<not> has_keyword (trim s)"
  shows "parseScholarshipResponse urlOk (JString t) = fallback"
proof -
  have "accepted urlOk (str_split t split_re) = []"
  proof (rule ccontr)
    assume "accepted urlOk (str_split t split_re) \<noteq> []"
    then obtain r where "r \<in> set (accepted urlOk (str_split t split_re))"
      by (cases "accepted urlOk (str_split t split_re)") auto
    then obtain s where s: "s \<in> set (str_split t split_re)" "\<not> length (trim s) < 100"
        "valid (extractScholarshipInfo urlOk (trim s))"
      by (auto simp: accepted_def)
    from valid_keyword [OF s(3)] assms s(1,2) show False by blast
  qed
  then show ?thesis by (simp add: parse_rich_eq length_fallback)
qed

lemma cls_first: "run ic ml (R (Cls n its) # k) i p s c = Some (e, c') \<Longrightarrow> i < e"
proof (cases s)
  case Nil
  then show "run ic ml (R (Cls n its) # k) i p s c = Some (e, c') \<Longrightarrow> i < e" by simp
next
  case (Cons x xs)
  assume "run ic ml (R (Cls n its) # k) i p s c = Some (e, c')"
  with Cons have "run ic ml k (i + 1) (Some x) xs c = Some (e, c')"
    by (simp split: if_splits)
  from run_bounds(1) [OF this] show "i < e" by simp
qed

lemma retryD:
  "retry m ic ml k i p s c = Some r \<Longrightarrow> m = Some r \<or> run ic ml k i p s c = Some r"
  by (cases m) simp_all

lemma marker_p0_consumes:
  "run False False [R marker_p0] q pv s None = Some (e, c) \<Longrightarrow> q < e"
  by (auto simp: marker_p0_def rx_defs dest!: retryD) (erule cls_first)+

lemma split_loop_nonempty: "split_loop ic ml r t p q pv s \<noteq> []"
  by (induction ic ml r t p q pv s rule: split_loop.induct)
     (auto simp: split_loop.simps(2) split: option.splits)

lemma split_consume:
  assumes "\<And>q pv s e c. run ic ml [R r] q pv s None = Some (e, c) \<Longrightarrow> q < e"
    and "s = drop q t" and "p \<le> q"
  shows "length (concat (split_loop ic ml r t p q pv s)) + length (split_loop ic ml r t p q pv s)
           \<le> Suc (length t - p)"
  using assms
proof (induction ic ml r t p q pv s rule: split_loop.induct)
  case (1 ic ml r t p q pv)
  then show ?case by simp
next
  case (2 ic ml r t p q pv x xs)
  from 2(5) have d: "q < length t" "drop (Suc q) t = xs"
    using drop_eq_ConsD [of q t x xs] by auto
  show ?case
  proof (cases "run ic ml [R r] q pv (x # xs) None")
    case None
    from 2(1) [OF None 2(4)] d 2(6) show ?thesis
      using None by (simp add: split_loop.simps(2))
  next
    case (Some res)
    obtain e c where res: "res = (e, c)" by (cases res)
    from Some res have m: "run ic ml [R r] q pv (x # xs) None = Some (e, c)" by simp
    from 2(4) [OF m] have qe: "q < e" .
    from run_bounds(1) [OF m] 2(5) d(1) have et: "e \<le> length t"
      by (metis add.commute le_add_diff_inverse2 length_drop less_or_eq_imp_le)
    have ep: "e \<noteq> p" using qe 2(6) by simp
    let ?rest = "split_loop ic ml r t e e (if e = q then pv else Some ((x # xs) ! (e - q - 1)))
        (drop (e - q) (x # xs))"
    have dr: "drop (e - q) (x # xs) = drop e t"
      using 2(5) qe by simp
    have ih: "length (concat ?rest) + length ?rest \<le> Suc (length t - e)"
      using 2(3) [OF m refl ep 2(4) dr] by simp
    have eq: "split_loop ic ml r t p q pv (x # xs) = slice p q t # ?rest"
      using m ep by (subst split_loop.simps(2)) simp
    have len: "length (slice p q t) = q - p"
      using d(1) 2(6) by (simp add: slice_def)
    have "length (concat (slice p q t # ?rest)) + length (slice p q t # ?rest)
        = (q - p) + (length (concat ?rest) + length ?rest) + 1"
      using len by simp
    also have "\<dots> \<le> (q - p) + Suc (length t - e) + 1"
      using ih by simp
    also have "\<dots> \<le> Suc (length t - p)"
      using qe et 2(6) by arith
    finally show ?thesis unfolding eq .
  qed
qed

lemma split_look_cut:
  assumes "r = Look b" "ic = False" "ml = False" "s = drop q t" "p \<le> q" "pv = before t q"
  shows "split_loop ic ml r t p q pv s =
           cut_at (filter (matches_at b t) [max q (Suc p)..<length t]) p t"
  using assms
proof (induction ic ml r t p q pv s rule: split_loop.induct)
  case (1 ic ml r t p q pv)
  then show ?case by simp
next
  case (2 ic ml r t p q pv x xs)
  from 2(7) have d: "q < length t" "t ! q = x" "drop (Suc q) t = xs"
    using drop_eq_ConsD [of q t x xs] by auto
  have nxt: "xs = drop (q + 1) t" "p \<le> q + 1" "Some x = before t (q + 1)"
    using d 2(8) by (auto simp: before_def)
  have at: "matches_at b t q = (run ic ml [R b] q pv (x # xs) None \<noteq> None)"
    using 2(5,6,7,9) by (simp add: matches_at_def)
  show ?case
  proof (cases "q = p")
    case True
    have rng: "[max (q + 1) (Suc p)..<length t] = [max q (Suc p)..<length t]"
      using True by (simp add: max_def)
    have "split_loop ic ml r t p q pv (x # xs) = split_loop ic ml r t p (q + 1) (Some x) xs"
    proof (cases "run ic ml [R b] q pv (x # xs) None")
      case None
      then show ?thesis using 2(4) by (simp add: split_loop.simps(2) run_look)
    next
      case (Some res)
      then show ?thesis using 2(4) True by (simp add: split_loop.simps(2) run_look)
    qed
    moreover have "split_loop ic ml r t p (q + 1) (Some x) xs =
        cut_at (filter (matches_at b t) [max (q + 1) (Suc p)..<length t]) p t"
    proof (cases "run ic ml [R b] q pv (x # xs) None")
      case None
      then have m: "run ic ml [R r] q pv (x # xs) None = None"
        using 2(4) by (simp add: run_look)
      from 2(1) [OF m 2(4,5,6) nxt] show ?thesis .
    next
      case (Some res)
      then have m: "run ic ml [R r] q pv (x # xs) None = Some (q, None)"
        using 2(4) by (simp add: run_look)
      from 2(2) [OF m refl _ 2(4,5,6) nxt] True show ?thesis by simp
    qed
    ultimately show ?thesis using rng by simp
  next
    case False
    then have pq: "p < q" using 2(8) by simp
    have "max q (Suc p) = q" using pq by simp
    then have rng: "[max q (Suc p)..<length t] = q # [q + 1..<length t]"
      using d(1) by (simp add: upt_conv_Cons)
    have "max (q + 1) (Suc p) = q + 1" using pq by simp
    then have rng1: "[max (q + 1) (Suc p)..<length t] = [q + 1..<length t]"
      by simp
    have "max q (Suc q) = q + 1" by simp
    then have rng2: "[max q (Suc q)..<length t] = [q + 1..<length t]"
      by simp
    show ?thesis
    proof (cases "run ic ml [R b] q pv (x # xs) None")
      case None
      then have m: "run ic ml [R r] q pv (x # xs) None = None"
        using 2(4) by (simp add: run_look)
      have "\<not> matches_at b t q" using at None by simp
      with 2(1) [OF m 2(4,5,6) nxt] show ?thesis
        using m rng rng1 by (simp add: split_loop.simps(2))
    next
      case (Some res)
      then have m: "run ic ml [R r] q pv (x # xs) None = Some (q, None)"
        using 2(4) by (simp add: run_look)
      have here: "matches_at b t q" using at Some by simp
      have ih: "split_loop ic ml r t q q pv (x # xs) =
          cut_at (filter (matches_at b t) [max q (Suc q)..<length t]) q t"
        using 2(3) [OF m refl False 2(4,5,6)] 2(7,9) by simp
      have eq: "split_loop ic ml r t p q pv (x # xs) = slice p q t # split_loop ic ml r t q q pv (x # xs)"
        using m False by (subst split_loop.simps(2)) simp
      show ?thesis unfolding eq ih rng rng2 using here by simp
    qed
  qed
qed

lemma split_consume_laid:
  assumes "\<And>q pv s e c. run ic ml [R r] q pv s None = Some (e, c) \<Longrightarrow> q < e"
    and "ic = False" "ml = False" "s = drop q t" "p \<le> q" "pv = before t q"
    and "free_of r t p q"
  shows "laid_out r t p (split_loop ic ml r t p q pv s)"
  using assms
proof (induction ic ml r t p q pv s rule: split_loop.induct)
  case (1 ic ml r t p q pv)
  from 1(4) have "length t \<le> q" by simp
  with 1(7) have "free_of r t p (length t)"
    by (auto simp: free_of_def filter_empty_conv)
  then show ?case by simp
next
  case (2 ic ml r t p q pv x xs)
  from 2(7) have d: "q < length t" "t ! q = x" "drop (Suc q) t = xs"
    using drop_eq_ConsD [of q t x xs] by auto
  have nxt: "xs = drop (q + 1) t" "p \<le> q + 1" "Some x = before t (q + 1)"
    using d 2(8) by (auto simp: before_def)
  have me: "match_end r t q = map_option fst (run ic ml [R r] q pv (x # xs) None)"
    using 2(5,6,7,9) by (simp add: match_end_def)
  show ?case
  proof (cases "run ic ml [R r] q pv (x # xs) None")
    case None
    have "free_of r t p (q + 1)"
      using 2(10) 2(8) me None by (auto simp: free_of_def filter_empty_conv less_Suc_eq)
    from 2(1) [OF None 2(4,5,6) nxt this] show ?thesis
      using None by (simp add: split_loop.simps(2))
  next
    case (Some res)
    obtain e c where res: "res = (e, c)" by (cases res)
    from Some res have m: "run ic ml [R r] q pv (x # xs) None = Some (e, c)" by simp
    from 2(4) [OF m] have qe: "q < e" .
    have "length (x # xs) = length t - q" using 2(7) by (metis length_drop)
    with run_bounds(1) [OF m] d(1) have et: "e \<le> length t" by auto
    have ep: "e \<noteq> p" using qe 2(8) by simp
    let ?pv = "if e = q then pv else Some ((x # xs) ! (e - q - 1))"
    let ?rest = "split_loop ic ml r t e e ?pv (drop (e - q) (x # xs))"
    have dr: "drop (e - q) (x # xs) = drop e t"
      using 2(7) qe by simp
    have "drop q t ! (e - q - 1) = t ! (q + (e - q - 1))"
      using d(1) by (simp add: nth_drop)
    moreover have "q + (e - q - 1) = e - 1" using qe by simp
    ultimately have "(x # xs) ! (e - q - 1) = t ! (e - 1)"
      using 2(7) by simp
    then have pv': "?pv = before t e" using qe by (simp add: before_def)
    have fr: "free_of r t e e" by (simp add: free_of_def)
    have ih: "laid_out r t e ?rest"
      using 2(3) [OF m refl ep 2(4,5,6) dr _ pv' fr] by simp
    have eq: "split_loop ic ml r t p q pv (x # xs) = slice p q t # ?rest"
      using m ep by (subst split_loop.simps(2)) simp
    have len: "length (slice p q t) = q - p"
      using d(1) 2(8) by (simp add: slice_def)
    obtain y ys where rest: "?rest = y # ys"
      using split_loop_nonempty by (cases ?rest) auto
    have "laid_out r t p (slice p q t # y # ys)"
      using len 2(8) 2(10) me m qe ih rest by simp
    then show ?thesis unfolding eq rest .
  qed
qed

lemma strip_nil: "strip_article (trim []) = []"
  by (simp add: strip_article_def trim_def)

lemma name_loop_eq:
  "name_loop t ps =
     (case List.map_filter (name_candidate t) ps of
        [] \<Rightarrow> js ''Educational Opportunity''
      | n # ns \<Rightarrow> n)"
proof (induction ps)
  case Nil
  show ?case by (simp add: List.map_filter_simps)
next
  case (Cons re ps)
  show ?case
  proof (cases "str_match t re")
    case None
    with Cons show ?thesis by (simp add: List.map_filter_simps name_candidate_def)
  next
    case (Some m)
    show ?thesis
    proof (cases "group1 m = []")
      case True
      with Some Cons show ?thesis
        by (simp add: List.map_filter_simps name_candidate_def strip_nil)
    next
      case False
      with Some Cons show ?thesis
        by (simp add: List.map_filter_simps name_candidate_def str_remove_article)
    qed
  qed
qed

lemma name_patterns_3:
  "name_patterns = [name_patterns ! 0, name_patterns ! 1, name_patterns ! 2]"
  by (simp add: name_patterns_def)

lemma name_patterns_p0_2:
  "name_patterns_p0 = [name_patterns_p0 ! 0, name_patterns_p0 ! 1]"
  by (simp add: name_patterns_p0_def)

lemma link_loop_eq:
  "link_loop urlOk t ps = List.find urlOk (List.map_filter (link_candidate t) ps)"
  by (induction ps)
     (auto simp: List.map_filter_simps link_candidate_def Let_def split: option.splits)

lemma name_length: "length (extractScholarshipName t) \<noteq> 8 \<and> length (extractScholarshipName t) \<noteq> 200"
proof -
  have "length (js ''Educational Opportunity'') = 23" by (simp add: js_def)
  with name_loop_cases [of t name_patterns] show ?thesis
    unfolding extractScholarshipName_def by auto
qed

lemma valid_spec:
  "valid sch = (spec_accepts_rich (name sch) \<and> length (name sch) \<noteq> 8 \<and> length (name sch) \<noteq> 200)"
  by (auto simp: valid_def spec_accepts_rich_def has_keyword_def)

subsection \<open>The examples, evaluated\<close>

lemma text_link_split: "str_split text_link split_re_p0 = [text_link]"
  by (simp add: text_link_def split_re_p0_def rx_defs chr_defs)

lemma text_link_length: "length text_link = 69"
  by (simp add: text_link_def js_def)

lemma text_link_name: "extractName text_link = js ''Merit Scholarship''"
  by (simp add: text_link_def extractName_def name_patterns_p0_def rx_defs chr_defs)

lemma text_link_link: "extractLink_p0 text_link = js ''http://?''"
  by (simp add: text_link_def extractLink_p0_def rx_defs chr_defs)

lemma text_link_valid: "valid_p0 (candidate_p0 text_link)"
  by (simp add: valid_p0_def candidate_p0_def text_link_name js_def toLowerCase_def lower_def)

lemma text_link_parse: "parseScholarships (JString text_link) = [candidate_p0 text_link]"
  by (simp add: parse_p0_eq text_link_split accepted_p0_def text_link_length text_link_valid)

lemma filler_split: "str_split filler split_re_p0 = [filler]"
  by (simp add: filler_def split_re_p0_def rx_defs chr_defs)

lemma filler_length: "length filler = 86"
  by (simp add: filler_def js_def)

lemma filler_name: "extractName filler = js ''Educational Grant''"
  by (simp add: filler_def extractName_def name_patterns_p0_def rx_defs chr_defs)

lemma filler_no_keyword: "\<not> has_keyword filler"
  by (simp add: filler_def has_keyword_def js_def toLowerCase_def lower_def)

lemma filler_valid: "valid_p0 (candidate_p0 filler)"
  by (simp add: valid_p0_def candidate_p0_def filler_name js_def toLowerCase_def lower_def)

lemma filler_parse: "parseScholarships (JString filler) = [candidate_p0 filler]"
  by (simp add: parse_p0_eq filler_split accepted_p0_def filler_length filler_valid)

lemma text11_split:
  "str_split text11 split_re_p0 =
     [seg50, seg50, seg50, seg50, seg50, seg50, seg50, seg50, seg50, seg50, seg50, []]"
  by (simp add: text11_def seg50_def split_re_p0_def rx_defs chr_defs)

lemma seg50_length: "length seg50 = 50"
  by (simp add: seg50_def js_def)

lemma seg50_name: "extractName seg50 = js ''Educational Grant''"
  by (simp add: seg50_def extractName_def name_patterns_p0_def rx_defs chr_defs)

lemma seg50_valid: "valid_p0 (candidate_p0 seg50)"
  by (simp add: valid_p0_def candidate_p0_def seg50_name js_def toLowerCase_def lower_def)

lemma seg_plain_length: "length seg_plain = 50"
  by (simp add: seg_plain_def js_def)

lemma seg_plain_nomatch: "first_match seg_plain name_patterns_p0 = None"
  by (simp add: seg_plain_def name_patterns_p0_def rx_defs chr_defs)

lemma seg_plain_amount: "extractAmount_p0 seg_plain = js ''Amount varies''"
  by (simp add: seg_plain_def extractAmount_p0_def amount_patterns_p0_def rx_defs chr_defs)

lemma seg_plain_eligibility: "extractEligibility_p0 seg_plain = js ''Check official website''"
  by (simp add: seg_plain_def extractEligibility_p0_def eligibility_patterns_p0_def rx_defs chr_defs)

lemma seg_plain_deadline: "extractDeadline_p0 seg_plain = js ''Check website''"
  by (simp add: seg_plain_def extractDeadline_p0_def deadline_patterns_p0_def rx_defs chr_defs)

lemma seg_plain_description:
  "extractDescription_p0 seg_plain = js ''Scholarship opportunity available.''"
  by (simp add: seg_plain_def extractDescription_p0_def rx_defs chr_defs)

lemma seg_plain_link: "extractLink_p0 seg_plain = js ''https://scholarships.gov.in''"
  by (simp add: seg_plain_def extractLink_p0_def rx_defs chr_defs)

lemma seg_plain_split: "str_split seg_plain split_re_p0 = [seg_plain]"
  by (simp add: seg_plain_def split_re_p0_def rx_defs chr_defs)

lemma numbered_split: "str_split numbered split_re = [js ''a '', js ''1. b'']"
  by (simp add: numbered_def split_re_def rx_defs chr_defs)

lemma numbered_offset: "length (js ''a '') = 2"
  by (simp add: js_def)

lemma hello_split: "str_split (js ''hello'') split_re = [js ''hello'']"
  by (simp add: split_re_def rx_defs chr_defs)

lemma hello_parse: "parseScholarshipResponse urlOk (JString (js ''hello'')) = fallback"
  by (simp add: parse_rich_eq hello_split accepted_def length_fallback)
     (simp add: trim_def js_def is_space_def)

lemma two_links_first:
  "str_match two_links (hd link_patterns) = Some (js ''http://?'', Some (js ''http://?''))"
  by (simp add: two_links_def link_patterns_def rx_defs chr_defs)

lemma two_links_link: "extractLink has_host two_links = Some (js ''https://www.b.in'')"
  by (simp add: two_links_def extractLink_def link_patterns_def has_host_def empty_host_def
      is_slash_def rx_defs chr_defs)

lemma has_host_literals:
  "has_host portal" "has_host (js ''https://online-inspire.gov.in'')"
  "has_host (js ''https://www.b.in'')" "\<not> has_host (js ''http://?'')"
  by (simp_all add: has_host_def empty_host_def is_slash_def portal_def js_def)

lemma empty_name: "extractName [] = js ''Educational Grant''"
  by (simp add: extractName_def name_patterns_p0_def rx_defs chr_defs)

lemma filler2_split: "str_split filler2 split_re = [filler2]"
  by (simp add: filler2_def filler_def split_re_def rx_defs chr_defs)

lemma filler2_trim: "trim filler2 = filler2"
  by (simp add: filler2_def filler_def chr_defs)

lemma filler2_length: "length filler2 = 173"
  by (simp add: filler2_def filler_def js_def)

lemma filler2_no_keyword: "\<not> has_keyword filler2"
  by (simp add: filler2_def filler_def has_keyword_def js_def toLowerCase_def lower_def)

lemma scenario_split: "str_split scenario split_re = [scenario]"
  by (simp add: scenario_def split_re_def rx_defs chr_defs)

lemma scenario_trim: "trim scenario = scenario"
  by (simp add: scenario_def chr_defs)

lemma scenario_length: "length scenario = 157"
  by (simp add: scenario_def js_def)

lemma scenario_name: "extractScholarshipName scenario = js ''National Merit Scholarship''"
  by (simp add: scenario_def extractScholarshipName_def name_patterns_def rx_defs chr_defs)

lemma scenario_amount: "extractAmount scenario = [rupee] @ js ''50,000 per year''"
  by (simp add: scenario_def extractAmount_def amount_patterns_def rx_defs chr_defs)

lemma scenario_eligibility: "extractEligibility scenario = js ''for economically weaker students''"
  by (simp add: scenario_def extractEligibility_def eligibility_patterns_def rx_defs chr_defs)

lemma scenario_deadline: "extractDeadline scenario = js ''December 31, 2025''"
  by (simp add: scenario_def extractDeadline_def deadline_patterns_def rx_defs chr_defs)

lemma scenario_link: "extractLink has_host scenario = Some (js ''https://example.gov.in/apply'')"
  by (simp add: scenario_def extractLink_def link_patterns_def has_host_def empty_host_def
      is_slash_def rx_defs chr_defs)

lemma scenario_valid: "valid (extractScholarshipInfo has_host scenario)"
  by (simp add: valid_def extractScholarshipInfo_def scenario_name js_def toLowerCase_def lower_def)

lemma scheme_name: "extractName scheme_text = js ''Best Scheme''"
  by (simp add: scheme_text_def extractName_def name_patterns_p0_def rx_defs chr_defs)

lemma grant_name: "extractName grant_text = js ''Some Grant''"
  by (simp add: grant_text_def extractName_def name_patterns_p0_def rx_defs chr_defs)

lemma long_name: "extractName long_text = long_text"
  by (simp add: long_text_def extractName_def name_patterns_p0_def rx_defs chr_defs)

lemma long_length: "length long_text = 207"
  by (simp add: long_text_def js_def)

lemma p0_texts_length: "length scheme_text = 58" "length grant_text = 57"
  by (simp_all add: scheme_text_def grant_text_def js_def)

lemma next_cand0: "name_candidate next_text (name_patterns ! 0) = None"
  by (simp add: next_text_def name_candidate_def name_patterns_def strip_article_def rx_defs chr_defs)

lemma next_cand1:
  "name_candidate next_text (name_patterns ! 1) =
     Some (js ''Some Award'' @ [10] @ js ''National Merit Scholarship'')"
  by (simp add: next_text_def name_candidate_def name_patterns_def strip_article_def rx_defs chr_defs)

lemma award_cand0: "name_candidate award_text (name_patterns ! 0) = Some (js ''Best Merit Award'')"
  by (simp add: award_text_def name_candidate_def name_patterns_def strip_article_def
      rx_defs chr_defs)

lemma top_split: "str_split top_text split_re = [js ''Top '', js ''1'', js ''0. Foo'']"
  by (simp add: top_text_def split_re_def rx_defs chr_defs)

lemma top_positions: "marker_positions marker top_text = [4, 5]"
  by (simp add: top_text_def marker_positions_def matches_at_def before_def upt_rec
      rx_defs chr_defs)

lemma foo_text_split: "str_split foo_text split_re_p0 = [[], js '' Foo'']"
  by (simp add: foo_text_def split_re_p0_def rx_defs chr_defs)

lemma nine_ten: "length nine = 9" "length ten = 10"
  by (simp_all add: nine_def ten_def length_fallback)

lemma scenario_accepted:
  "accepted has_host [scenario, scenario] =
     [extractScholarshipInfo has_host scenario, extractScholarshipInfo has_host scenario]"
  by (simp add: accepted_def scenario_trim scenario_length scenario_valid)

section \<open>The claims\<close>

text \<open>
  Claim C1. For every input string, \<open>parseScholarshipResponse\<close> and \<open>parseScholarships\<close>
  return at least 1 and at most 8 records.
\<close>

theorem parse_returns_1_to_8:
  "1 \<le> length (parseScholarshipResponse urlOk (JString t)) \<and>
   length (parseScholarshipResponse urlOk (JString t)) \<le> 8 \<and>
   1 \<le> length (parseScholarships (JString t)) \<and>
   length (parseScholarships (JString t)) \<le> 8"
  by (cases "accepted urlOk (str_split t split_re)"; cases "accepted_p0 (str_split t split_re_p0)")
     (simp_all add: parse_rich_eq parse_p0_eq length_fallback)


text \<open>
  Claim C2. An exception inside the parser is caught at the boundary of the orchestrator
  and the orchestrator never raises; the specification adds that the fallback list is then
  returned. The code does not do the last part: the fallback is pushed inside the \<open>try\<close>
  block and the handler only logs, so when \<open>split\<close> throws (the content is not a string)
  both variants return the empty list.
\<close>

theorem exception_returns_empty:
  "parse_try urlOk JOther = Inl TypeError \<and> parseScholarshipResponse urlOk JOther = [] \<and>
   parseScholarshipResponse urlOk JOther \<noteq> fallback \<and>
   parse_try_p0 JOther = Inl TypeError \<and> parseScholarships JOther = [] \<and>
   parseScholarships JOther \<noteq> fallback_p0"
  by (simp add: parse_try_def parseScholarshipResponse_def parse_try_p0_def parseScholarships_def
      fallback_def fallback_p0_def)

text \<open>
  Claim C3. Every record that either orchestrator returns has a non-empty name that
  contains one of the keywords scholarship, grant, fellowship, award, scheme, compared
  without regard to case.
\<close>

theorem surfaced_names_have_keyword:
  assumes "r \<in> set (parseScholarshipResponse urlOk v) \<or> r \<in> set (parseScholarships v)"
  shows "name r \<noteq> [] \<and> has_keyword (name r)"
proof (cases v)
  case JOther
  with assms show ?thesis
    by (simp add: parse_try_def parseScholarshipResponse_def parse_try_p0_def parseScholarships_def)
next
  case (JString t)
  from assms show ?thesis
  proof
    assume "r \<in> set (parseScholarshipResponse urlOk v)"
    then have "r \<in> set fallback \<or> r \<in> set (accepted urlOk (str_split t split_re))"
      unfolding JString parse_rich_eq by (auto dest: in_set_takeD split: if_splits)
    then show ?thesis
      using fallback_names(1) accepted_valid(1) valid_has_keyword by blast
  next
    assume "r \<in> set (parseScholarships v)"
    then have "r \<in> set fallback_p0 \<or> r \<in> set (accepted_p0 (str_split t split_re_p0))"
      unfolding JString parse_p0_eq by (auto dest: in_set_takeD split: if_splits)
    then show ?thesis
      using fallback_names(2) accepted_valid(2) valid_p0_has_keyword by blast
  qed
qed

theorem surfaced_names_have_keyword_witness:
  "candidate_p0 text_link \<in> set (parseScholarships (JString text_link)) \<and>
   name (candidate_p0 text_link) = js ''Merit Scholarship'' \<and>
   name (candidate_p0 text_link) \<noteq> [] \<and> has_keyword (name (candidate_p0 text_link))"
proof -
  have mem: "candidate_p0 text_link \<in> set (parseScholarshipResponse has_host (JString text_link))
      \<or> candidate_p0 text_link \<in> set (parseScholarships (JString text_link))"
    by (simp add: text_link_parse)
  have n: "name (candidate_p0 text_link) = js ''Merit Scholarship''"
    by (simp add: candidate_p0_def text_link_name)
  from surfaced_names_have_keyword [OF mem] n show ?thesis
    by (simp add: text_link_parse)
qed

text \<open>
  Claim C4, as amended. In the richer variant the link of every returned record is
  accepted by the URL constructor (given that it accepts the two links written in the code):
  the extractor returns the first candidate, in the order of the patterns, that the
  constructor accepts, so it goes on with the next pattern when a candidate is refused, and
  the caller puts the portal link where the extractor found none. In the simpler variant
  the extractor does not validate: its link is the first match of the absolute-link pattern
  as it stands whenever the pattern matches, and the portal link only when it does not.
\<close>

theorem links_validated:
  assumes "urlOk portal" and "urlOk (js ''https://online-inspire.gov.in'')"
  shows "(\<forall>r\<in>set (parseScholarshipResponse urlOk v). urlOk (link r)) \<and>
         extractLink urlOk t = List.find urlOk (List.map_filter (link_candidate t) link_patterns) \<and>
         (\<forall>l. extractLink urlOk t = Some l \<longrightarrow> urlOk l) \<and>
         (\<forall>re rest m. str_match t re = Some m \<and>
             \<not> urlOk (if startsWith (group_or_whole m) (js ''http'') then group_or_whole m
                       else js ''https://'' @ group_or_whole m) \<longrightarrow>
             link_loop urlOk t (re # rest) = link_loop urlOk t rest) \<and>
         (extractLink urlOk t = None \<longrightarrow> link (extractScholarshipInfo urlOk t) = portal) \<and>
         ((str_match t http_link = None \<and> extractLink_p0 t = portal) \<or>
            (\<exists>m. str_match t http_link = Some m \<and> extractLink_p0 t = group1 m))"
proof (intro conjI ballI allI impI)
  fix r
  assume r: "r \<in> set (parseScholarshipResponse urlOk v)"
  show "urlOk (link r)"
  proof (cases v)
    case JOther
    with r show ?thesis by (simp add: parseScholarshipResponse_def parse_try_def)
  next
    case (JString t')
    with r have "r \<in> set (parseScholarshipResponse urlOk (JString t'))" by simp
    then have "r \<in> set fallback \<or> r \<in> set (accepted urlOk (str_split t' split_re))"
      unfolding parse_rich_eq by (auto dest: in_set_takeD split: if_splits)
    then show ?thesis
      using fallback_links accepted_link assms by metis
  qed
next
  show "extractLink urlOk t = List.find urlOk (List.map_filter (link_candidate t) link_patterns)"
    unfolding extractLink_def by (rule link_loop_eq)
next
  fix l
  assume "extractLink urlOk t = Some l"
  then show "urlOk l" unfolding extractLink_def by (rule link_loop_ok)
next
  fix re rest m
  assume "str_match t re = Some m \<and>
     \<not> urlOk (if startsWith (group_or_whole m) (js ''http'') then group_or_whole m
               else js ''https://'' @ group_or_whole m)"
  then show "link_loop urlOk t (re # rest) = link_loop urlOk t rest"
    using link_loop_next by blast
next
  assume "extractLink urlOk t = None"
  then show "link (extractScholarshipInfo urlOk t) = portal"
    by (simp add: extractScholarshipInfo_def)
next
  show "(str_match t http_link = None \<and> extractLink_p0 t = portal) \<or>
     (\<exists>m. str_match t http_link = Some m \<and> extractLink_p0 t = group1 m)"
    by (cases "str_match t http_link") (simp_all add: extractLink_p0_def)
qed

theorem links_validated_witness:
  "has_host portal \<and> has_host (js ''https://online-inspire.gov.in'') \<and>
   hd fallback \<in> set (parseScholarshipResponse has_host (JString (js ''hello''))) \<and>
   has_host (link (hd fallback)) \<and>
   str_match two_links (hd link_patterns) = Some (js ''http://?'', Some (js ''http://?'')) \<and>
   \<not> has_host (js ''http://?'') \<and>
   extractLink has_host two_links = Some (js ''https://www.b.in'') \<and>
   has_host (js ''https://www.b.in'')"
proof -
  note th = links_validated [OF has_host_literals(1,2), of "JString (js ''hello'')" two_links]
  have mem: "hd fallback \<in> set (parseScholarshipResponse has_host (JString (js ''hello'')))"
    by (simp add: hello_parse fallback_def)
  from th mem have "has_host (link (hd fallback))" by blast
  moreover from th two_links_link have "has_host (js ''https://www.b.in'')" by blast
  ultimately show ?thesis
    using mem two_links_first two_links_link has_host_literals by simp
qed

text \<open>
  The claim as stated fails on the simpler variant: the link of the record it returns for
  \<open>text_link\<close> is \<open>http://?\<close>, which has no host.
\<close>

theorem link_unvalidated_counterexample:
  "link (hd (parseScholarships (JString text_link))) = js ''http://?'' \<and>
   empty_host (link (hd (parseScholarships (JString text_link))))"
  by (simp add: text_link_parse candidate_p0_def text_link_link)
     (simp add: empty_host_def is_slash_def js_def)

text \<open>
  Claim C5. A text without a keyword-bearing segment of sufficient length yields the
  fallback list. The simpler variant breaks it: its placeholder name, \<open>Educational Grant\<close>,
  passes its own check of a meaningful name, so the filler sentence of the specification
  comes back as one record and not as the fallback list.
\<close>

theorem filler_not_fallback:
  "\<not> has_keyword filler \<and>
   parseScholarships (JString filler) = [candidate_p0 filler] \<and>
   name (candidate_p0 filler) = js ''Educational Grant'' \<and>
   parseScholarships (JString filler) \<noteq> fallback_p0"
  by (simp add: filler_no_keyword filler_parse candidate_p0_def filler_name fallback_p0_def)

text \<open>
  Claim C6, as amended. The richer validator accepts a candidate that the extractors
  built if and only if its name is present, has at least 8 and at most 200 characters,
  contains neither \<open>here are\<close> nor \<open>following\<close> and contains one of the five keywords, all
  without regard to case, as the claim says (its tests are strict, but the name extractor
  gives no name of 8 or of 200 characters). The simpler validator accepts if and only if
  the name has more than 10 characters, with no upper bound, and contains scholarship, grant
  or award; fellowship and scheme do not count.
\<close>

theorem validator_iff:
  "valid (extractScholarshipInfo urlOk t) = spec_accepts_rich (name (extractScholarshipInfo urlOk t)) \<and>
   valid_p0 sch =
     (10 < length (name sch) \<and>
      (includes_str (toLowerCase (name sch)) (js ''scholarship'') \<or>
       includes_str (toLowerCase (name sch)) (js ''grant'') \<or>
       includes_str (toLowerCase (name sch)) (js ''award'')))"
proof -
  have "name (extractScholarshipInfo urlOk t) = extractScholarshipName t"
    by (simp add: extractScholarshipInfo_def)
  with name_length [of t] show ?thesis
    by (auto simp: valid_spec valid_p0_def)
qed

text \<open>
  The claim as stated fails on the simpler variant, on sections of at least 50 characters:
  the name \<open>Some Grant\<close> has 10 characters and is rejected, the name \<open>Best Scheme\<close> has a
  keyword of the claim and is rejected, and a name of 207 characters is accepted.
\<close>

theorem validator_bounds_counterexample:
  "50 \<le> length grant_text \<and> name (candidate_p0 grant_text) = js ''Some Grant'' \<and>
   spec_accepts_simple (name (candidate_p0 grant_text)) \<and> \<not> valid_p0 (candidate_p0 grant_text) \<and>
   50 \<le> length scheme_text \<and> name (candidate_p0 scheme_text) = js ''Best Scheme'' \<and>
   spec_accepts_simple (name (candidate_p0 scheme_text)) \<and> \<not> valid_p0 (candidate_p0 scheme_text) \<and>
   50 \<le> length long_text \<and> length (name (candidate_p0 long_text)) = 207 \<and>
   \<not> spec_accepts_simple (name (candidate_p0 long_text)) \<and> valid_p0 (candidate_p0 long_text)"
proof -
  have g: "spec_accepts_simple (js ''Some Grant'')" "\<not> valid_p0 (candidate_p0 grant_text)"
    by (simp_all add: spec_accepts_simple_def has_keyword_def valid_p0_def candidate_p0_def
        grant_name js_def toLowerCase_def lower_def)
  have s: "spec_accepts_simple (js ''Best Scheme'')" "\<not> valid_p0 (candidate_p0 scheme_text)"
    by (simp_all add: spec_accepts_simple_def has_keyword_def valid_p0_def candidate_p0_def
        scheme_name js_def toLowerCase_def lower_def)
  have l: "\<not> spec_accepts_simple long_text"
    by (simp add: spec_accepts_simple_def long_length)
  have lv: "valid_p0 (candidate_p0 long_text)"
    by (simp add: valid_p0_def candidate_p0_def long_name long_length)
       (simp add: long_text_def js_def toLowerCase_def lower_def)
  show ?thesis
    using g s l lv by (simp add: candidate_p0_def grant_name scheme_name long_name long_length
        p0_texts_length)
qed

text \<open>
  Claim C7, as amended. The richer extractor tries its three patterns in order; the
  capture of a match is trimmed and stripped of a leading \<open>The\<close> or \<open>A\<close> (in either case),
  and it is returned when it has more than 10 and fewer than 150 characters; otherwise the
  next pattern is tried, and \<open>Educational Opportunity\<close> is returned when no pattern offers
  such a name. The simpler extractor returns the trimmed capture of the first of its two
  patterns that matches, with its article and whatever its length, and \<open>Educational Grant\<close>
  when neither matches.
\<close>

theorem name_extractor:
  "extractScholarshipName t =
     (case name_candidate t (name_patterns ! 0) of
        Some n \<Rightarrow> n
      | None \<Rightarrow>
         (case name_candidate t (name_patterns ! 1) of
            Some n \<Rightarrow> n
          | None \<Rightarrow>
             (case name_candidate t (name_patterns ! 2) of
                Some n \<Rightarrow> n
              | None \<Rightarrow> js ''Educational Opportunity''))) \<and>
   length name_patterns = 3 \<and>
   extractName t =
     (case str_match t (name_patterns_p0 ! 0) of
        Some m \<Rightarrow> trim (group1 m)
      | None \<Rightarrow>
         (case str_match t (name_patterns_p0 ! 1) of
            Some m \<Rightarrow> trim (group1 m)
          | None \<Rightarrow> js ''Educational Grant'')) \<and>
   length name_patterns_p0 = 2"
proof -
  have l3: "name_loop t [p1, p2, p3] =
     (case name_candidate t p1 of Some n \<Rightarrow> n | None \<Rightarrow>
       (case name_candidate t p2 of Some n \<Rightarrow> n | None \<Rightarrow>
         (case name_candidate t p3 of Some n \<Rightarrow> n | None \<Rightarrow> js ''Educational Opportunity'')))"
    for p1 p2 p3
    unfolding name_loop_eq by (simp add: List.map_filter_simps split: option.splits)
  have f2: "first_match t [q1, q2] =
     (case str_match t q1 of Some m \<Rightarrow> Some m | None \<Rightarrow> str_match t q2)" for q1 q2
    by (simp split: option.splits)
  have "extractScholarshipName t =
      name_loop t [name_patterns ! 0, name_patterns ! 1, name_patterns ! 2]"
    unfolding extractScholarshipName_def using name_patterns_3 by (rule arg_cong)
  then have a: "extractScholarshipName t =
     (case name_candidate t (name_patterns ! 0) of Some n \<Rightarrow> n | None \<Rightarrow>
       (case name_candidate t (name_patterns ! 1) of Some n \<Rightarrow> n | None \<Rightarrow>
         (case name_candidate t (name_patterns ! 2) of Some n \<Rightarrow> n
          | None \<Rightarrow> js ''Educational Opportunity'')))"
    unfolding l3 .
  have "first_match t name_patterns_p0 = first_match t [name_patterns_p0 ! 0, name_patterns_p0 ! 1]"
    using name_patterns_p0_2 by (rule arg_cong)
  then have b: "extractName t =
     (case str_match t (name_patterns_p0 ! 0) of Some m \<Rightarrow> trim (group1 m) | None \<Rightarrow>
       (case str_match t (name_patterns_p0 ! 1) of Some m \<Rightarrow> trim (group1 m)
        | None \<Rightarrow> js ''Educational Grant''))"
    unfolding extractName_def f2 by (simp split: option.splits)
  have c: "length name_patterns = 3" "length name_patterns_p0 = 2"
    by (simp_all add: name_patterns_def name_patterns_p0_def)
  from a b c show ?thesis by blast
qed

theorem name_extractor_witness:
  "name_candidate award_text (name_patterns ! 0) = Some (js ''Best Merit Award'') \<and>
   extractScholarshipName award_text = js ''Best Merit Award'' \<and>
   name_candidate next_text (name_patterns ! 0) = None \<and>
   name_candidate next_text (name_patterns ! 1) =
     Some (js ''Some Award'' @ [10] @ js ''National Merit Scholarship'') \<and>
   extractScholarshipName next_text = js ''Some Award'' @ [10] @ js ''National Merit Scholarship''"
proof -
  note a = name_extractor [of award_text, THEN conjunct1]
  note e = name_extractor [of next_text, THEN conjunct1]
  show ?thesis unfolding a e award_cand0 next_cand0 next_cand1 by simp
qed

text \<open>
  The claim as stated fails: the simpler extractor keeps the article, and the richer one
  turns down a name of exactly 10 characters.
\<close>

theorem name_extractor_counterexample:
  "extractName (js ''The Merit Scholarship'') = js ''The Merit Scholarship'' \<and>
   extractScholarshipName (js ''1. Some Award'') = js ''Educational Opportunity''"
  by (simp add: extractName_def name_patterns_p0_def extractScholarshipName_def name_patterns_def
      rx_defs chr_defs)

text \<open>
  Claim C8, as amended. The richer variant splits with a lookahead, which consumes
  nothing: the text is cut exactly in front of every position after its start at which the
  marker pattern matches, so the pieces put together give the text back and every piece
  after the first starts where the pattern matches (an item number of several digits is
  itself cut, since the pattern matches in front of each of its digits). The simpler variant
  splits with a pattern that consumes the marker: going from the left, the text is cut at
  each match of the pattern, and the match is left out of the pieces.
\<close>

theorem lookahead_split:
  "str_split t split_re = cut_at (marker_positions marker t) 0 t \<and>
   concat (str_split t split_re) = t \<and>
   (\<forall>k. 0 < k \<and> k < length (str_split t split_re) \<longrightarrow>
        matches_at marker t (length (concat (take k (str_split t split_re))))) \<and>
   laid_out marker_p0 t 0 (str_split t split_re_p0) \<and>
   length (concat (str_split t split_re_p0)) + length (str_split t split_re_p0) \<le> Suc (length t)"
proof (cases "t = []")
  case True
  then show ?thesis
    by (simp add: split_re_def split_re_p0_def marker_def marker_p0_def marker_positions_def
        free_of_def rx_defs)
next
  case False
  have c: "length (concat (split_loop False False marker_p0 t 0 0 None t))
      + length (split_loop False False marker_p0 t 0 0 None t) \<le> Suc (length t - 0)"
    by (rule split_consume) (auto dest: marker_p0_consumes)
  have l: "laid_out marker_p0 t 0 (split_loop False False marker_p0 t 0 0 None t)"
    by (rule split_consume_laid) (auto dest: marker_p0_consumes simp: before_def free_of_def)
  have e: "split_loop False False (Look marker) t 0 0 None t =
      cut_at (filter (matches_at marker t) [max 0 (Suc 0)..<length t]) 0 t"
    by (rule split_look_cut) (simp_all add: before_def)
  from split_look [of "Look marker" marker False False t 0 t 0 None] c l e
  show ?thesis using False
    by (simp add: split_re_def split_re_p0_def before_def marker_positions_def)
qed

theorem lookahead_split_witness:
  "str_split numbered split_re = [js ''a '', js ''1. b''] \<and>
   concat (str_split numbered split_re) = numbered \<and>
   matches_at marker numbered 2 \<and>
   str_split top_text split_re = cut_at [4, 5] 0 top_text \<and>
   laid_out marker_p0 foo_text 0 [[], js '' Foo'']"
proof -
  from lookahead_split [of numbered]
  have "concat (str_split numbered split_re) = numbered"
    and "0 < (1::nat) \<and> 1 < length (str_split numbered split_re) \<longrightarrow>
      matches_at marker numbered (length (concat (take 1 (str_split numbered split_re))))"
    by blast+
  moreover from lookahead_split [of top_text]
  have "str_split top_text split_re = cut_at [4, 5] 0 top_text"
    by (simp add: top_positions)
  moreover from lookahead_split [of foo_text]
  have "laid_out marker_p0 foo_text 0 [[], js '' Foo'']"
    by (simp add: foo_text_split)
  ultimately show ?thesis by (simp add: numbered_split numbered_offset)
qed

text \<open>
  The claim as stated fails on both variants. In the richer one the marker \<open>10.\<close> is cut
  after its first digit, so that the piece \<open>1\<close> holds no marker; in the simpler one the
  marker \<open>1.\<close> is consumed.
\<close>

theorem split_consumes_counterexample:
  "str_split top_text split_re = [js ''Top '', js ''1'', js ''0. Foo''] \<and>
   str_split foo_text split_re_p0 = [[], js '' Foo''] \<and>
   concat (str_split foo_text split_re_p0) \<noteq> foo_text"
  by (simp add: top_split foo_text_split) (simp add: foo_text_def js_def)

text \<open>
  Claim C9, as amended. Both variants go through the sections in the order of the text
  and return the first 8 accepted candidates at most. The richer variant stops scanning
  once 10 candidates are accepted: its loop adds to the collection the accepted candidates
  of the sections, in their order, up to the tenth and no further. The simpler variant has
  no such stop: its loop adds the accepted candidates of all sections.
\<close>

theorem scan_stops_at_10:
  "sections_loop urlOk ss acc = acc @ take (10 - length acc) (accepted urlOk ss) \<and>
   parseScholarshipResponse urlOk (JString t) =
     take 8 (if accepted urlOk (str_split t split_re) = [] then fallback
             else accepted urlOk (str_split t split_re)) \<and>
   sections_loop_p0 ss acc' = acc' @ accepted_p0 ss \<and>
   parseScholarships (JString t) =
     take 8 (if accepted_p0 (str_split t split_re_p0) = [] then fallback_p0
             else accepted_p0 (str_split t split_re_p0))"
  by (simp add: sections_loop_acc sections_loop_p0_acc parse_rich_eq parse_p0_eq)

theorem scan_stops_at_10_witness:
  "sections_loop has_host [scenario, scenario] [] =
     [extractScholarshipInfo has_host scenario, extractScholarshipInfo has_host scenario] \<and>
   length nine = 9 \<and>
   sections_loop has_host [scenario, scenario] nine = nine @ [extractScholarshipInfo has_host scenario] \<and>
   length ten = 10 \<and>
   sections_loop has_host [scenario, scenario] ten = ten"
  using scan_stops_at_10 [of has_host "[scenario, scenario]" "[]"]
    scan_stops_at_10 [of has_host "[scenario, scenario]" nine]
    scan_stops_at_10 [of has_host "[scenario, scenario]" ten]
  by (simp add: scenario_accepted nine_ten)

text \<open>
  The claim as stated fails on the simpler variant: on a text of 11 sections it collects
  11 candidates.
\<close>

theorem no_stop_at_10_counterexample:
  "length (sections_loop_p0 (str_split text11 split_re_p0) []) = 11"
  by (simp add: text11_split sections_loop_p0_acc accepted_p0_def seg50_length seg50_valid)

text \<open>
  Claim C10, as amended. In the simpler variant a section of at least 50 characters in
  which no name pattern matches gets the name \<open>Educational Grant\<close>, which has 17 characters
  (not 16) and contains \<open>grant\<close>, so it passes the validator of that variant and the section
  is accepted, possibly with every field at its default.
\<close>

theorem default_name_accepted:
  assumes "50 \<le> length section" and "first_match section name_patterns_p0 = None"
  shows "name (candidate_p0 section) = js ''Educational Grant'' \<and>
         length (name (candidate_p0 section)) = 17 \<and>
         includes_str (toLowerCase (name (candidate_p0 section))) (js ''grant'') \<and>
         valid_p0 (candidate_p0 section) \<and>
         sections_loop_p0 (section # rest) acc = sections_loop_p0 rest (acc @ [candidate_p0 section])"
proof -
  have n: "name (candidate_p0 section) = js ''Educational Grant''"
    using assms(2) by (simp add: candidate_p0_def extractName_def)
  have g: "includes_str (toLowerCase (js ''Educational Grant'')) (js ''grant'')"
    by (simp add: js_def toLowerCase_def lower_def)
  have l: "length (js ''Educational Grant'') = 17" by (simp add: js_def)
  have v: "valid_p0 (candidate_p0 section)"
    unfolding valid_p0_def n using g l by auto
  show ?thesis using n g l v assms(1) by simp
qed

theorem default_name_accepted_witness:
  "50 \<le> length seg_plain \<and> first_match seg_plain name_patterns_p0 = None \<and>
   valid_p0 (candidate_p0 seg_plain) \<and>
   candidate_p0 seg_plain =
     \<lparr>name = js ''Educational Grant'', amount = js ''Amount varies'',
      eligibility = js ''Check official website'', deadline = js ''Check website'',
      description = js ''Scholarship opportunity available.'',
      link = js ''https://scholarships.gov.in''\<rparr> \<and>
   parseScholarships (JString seg_plain) = [candidate_p0 seg_plain]"
proof -
  have l: "50 \<le> length seg_plain" by (simp add: seg_plain_length)
  note th = default_name_accepted [OF l seg_plain_nomatch, of "[]" "[]"]
  then have v: "valid_p0 (candidate_p0 seg_plain)"
    and n: "name (candidate_p0 seg_plain) = js ''Educational Grant''" by blast+
  have c: "candidate_p0 seg_plain =
     \<lparr>name = js ''Educational Grant'', amount = js ''Amount varies'',
      eligibility = js ''Check official website'', deadline = js ''Check website'',
      description = js ''Scholarship opportunity available.'',
      link = js ''https://scholarships.gov.in''\<rparr>"
    using n by (simp add: candidate_p0_def seg_plain_amount seg_plain_eligibility
        seg_plain_deadline seg_plain_description seg_plain_link)
  have p: "parseScholarships (JString seg_plain) = [candidate_p0 seg_plain]"
    by (simp add: parse_p0_eq seg_plain_split accepted_p0_def seg_plain_length v)
  show ?thesis using l seg_plain_nomatch v c p by blast
qed

text \<open>The claim as stated fails in one detail: the placeholder has 17 characters, not 16.\<close>

theorem default_name_length_counterexample:
  "extractName [] = js ''Educational Grant'' \<and> length (extractName []) = 17 \<and>
   length (extractName []) \<noteq> 16"
  by (simp add: empty_name) (simp add: js_def)

section \<open>Further properties\<close>

text \<open>
  Fallback determinism in the richer variant (the property of claim C5, on
  \<open>src/server.js\<close>): when no trimmed section of at least 100 characters contains a
  keyword, \<open>parseScholarshipResponse\<close> returns the fallback list.
\<close>

theorem no_keyword_gives_fallback:
  assumes "\<forall>s\<in>set (str_split t split_re). \<not> length (trim s) < 100 \<longrightarrow> \<not> has_keyword (trim s)"
  shows "parseScholarshipResponse urlOk (JString t) = fallback"
  using assms by (rule no_keyword_sections)

theorem no_keyword_gives_fallback_witness:
  "str_split filler2 split_re = [filler2] \<and> \<not> length (trim filler2) < 100 \<and>
   \<not> has_keyword (trim filler2) \<and>
   parseScholarshipResponse has_host (JString filler2) = fallback"
proof -
  have h: "\<forall>s\<in>set (str_split filler2 split_re).
      \<not> length (trim s) < 100 \<longrightarrow> \<not> has_keyword (trim s)"
    by (simp add: filler2_split filler2_trim filler2_no_keyword)
  from no_keyword_gives_fallback [OF h, of has_host] show ?thesis
    by (simp add: filler2_split filler2_trim filler2_no_keyword filler2_length)
qed

text \<open>
  In particular, a text that contains no keyword at all comes back as the fallback list
  from the richer variant; so does the filler sentence of the specification.
\<close>

theorem no_keyword_text_gives_fallback:
  assumes "\<not> has_keyword t"
  shows "parseScholarshipResponse urlOk (JString t) = fallback"
proof (rule no_keyword_sections, intro ballI impI)
  fix s
  assume "s \<in> set (str_split t split_re)"
  then have "sublist (trim s) t"
    using str_split_sublist trim_sublist sublist_order.order.trans by blast
  with assms show "\<not> has_keyword (trim s)" using has_keyword_mono by blast
qed

theorem no_keyword_text_gives_fallback_witness:
  "\<not> has_keyword filler \<and> parseScholarshipResponse has_host (JString filler) = fallback"
  using no_keyword_text_gives_fallback [OF filler_no_keyword, of has_host] filler_no_keyword
  by simp

text \<open>
  The scenario of the specification, on the richer variant: the text comes back as one
  record with the name, the amount and the link of the text.
\<close>

theorem scenario_parse:
  "map (\<lambda>r. (name r, amount r, eligibility r, deadline r, link r))
       (parseScholarshipResponse has_host (JString scenario)) =
     [(js ''National Merit Scholarship'', [rupee] @ js ''50,000 per year'',
       js ''for economically weaker students'', js ''December 31, 2025'',
       js ''https://example.gov.in/apply'')]"
proof -
  have "accepted has_host (str_split scenario split_re) = [extractScholarshipInfo has_host scenario]"
    by (simp add: accepted_def scenario_split scenario_trim scenario_length scenario_valid)
  then have "parseScholarshipResponse has_host (JString scenario) =
      [extractScholarshipInfo has_host scenario]"
    by (simp add: parse_rich_eq)
  then show ?thesis
    by (simp add: extractScholarshipInfo_def scenario_name scenario_amount scenario_eligibility
        scenario_deadline scenario_link) (simp add: js_def)
qed

end
